theory Spec2Isabelle
  imports Main "HOL-Library.Sublist" "HOL-Library.Word"
begin

section \<open>Data model\<close>

text \<open>
  The types of \<^verbatim>\<open>web/lib/types.ts\<close> and \<^verbatim>\<open>cli/src/types.ts\<close>. A JavaScript string is
  modelled as a \<^typ>\<open>string\<close> (a list of code units); only concatenation, \<^verbatim>\<open>startsWith\<close>,
  \<^verbatim>\<open>slice\<close>, \<^verbatim>\<open>replace\<close> and \<^verbatim>\<open>split\<close> are used on it, and they act on the list.
  A \<^verbatim>\<open>Uint8Array\<close> or \<^verbatim>\<open>Buffer\<close> is a list of bytes. Optional fields are options.
  The field \<^verbatim>\<open>type\<close> of a \<^verbatim>\<open>FileEntry\<close> is kept as the string the code compares with
  \<^verbatim>\<open>"file"\<close> and \<^verbatim>\<open>"dir"\<close>. The fields \<^verbatim>\<open>size\<close> and \<^verbatim>\<open>id\<close> carry a suffix, since
  HOL has constants of these names. The \<^verbatim>\<open>signal\<close> of the web \<^verbatim>\<open>FetchConfig\<close> is not
  a field here: an aborted request is an outcome of the network (see \<open>fetch_outcome\<close>).
\<close>

type_synonym bytes = "8 word list"

record FetchConfig =
  owner :: string
  repo :: string
  branch :: string
  path :: string
  token :: "string option"

record FileEntry =
  name :: string
  path :: string
  type :: string
  size_f :: nat
  downloadUrl :: "string option"
  sha :: "string option"
  id_f :: "string option"

text \<open>
  The CLI's \<^verbatim>\<open>FileToDownload\<close> and \<^verbatim>\<open>DownloadConfig\<close>. Where the CLI and the web engine
  use one name for two things, the CLI's is written with its record's name in front.
  The field \<^verbatim>\<open>file\<close> carries a suffix.
\<close>

record FileToDownload =
  file_e :: FileEntry
  relativePath :: string

record DownloadConfig = FetchConfig +
  outputDir :: string

record FileWithContent =
  relativePath :: string
  content :: bytes

datatype phase = fetching | downloading | zipping

record DownloadProgress =
  phase :: phase
  current :: nat
  total :: nat
  currentFile :: "string option"

subsection \<open>Errors (\<^verbatim>\<open>errors.ts\<close>)\<close>

datatype DownloadErrorCode =
    RATE_LIMITED | NOT_FOUND | AUTH_REQUIRED | INVALID_TOKEN | NETWORK_ERROR
  | EMPTY_DIRECTORY | FILE_TOO_LARGE | CORS_BLOCKED | INVALID_URL | PROVIDER_ERROR

record DownloadError =
  message :: string
  code :: DownloadErrorCode
  suggestion :: string
  retryable :: bool

text \<open>
  What a rejected promise carries: a \<^verbatim>\<open>DownloadError\<close>, the \<^verbatim>\<open>AbortError\<close> of a cancelled
  request (rethrown as it is), or a plain \<^verbatim>\<open>Error\<close> with a message (the CLI throws only these).
\<close>

datatype thrown = DownloadErr DownloadError | AbortError | JsError string

definition createRateLimitError :: "string \<Rightarrow> DownloadError" where
  "createRateLimitError provider =
     \<lparr>message = provider @ '' API rate limit exceeded'', code = RATE_LIMITED,
      suggestion = ''Add a '' @ provider @ '' token to increase the limit'', retryable = True\<rparr>"

definition createNotFoundError :: DownloadError where
  "createNotFoundError =
     \<lparr>message = ''Repository or path not found'', code = NOT_FOUND,
      suggestion = ''Check URL'' @ [CHR 0xE2, CHR 0x80, CHR 0x94] @ ''repo or path may not exist'',
      retryable = False\<rparr>"

definition createAuthRequiredError :: DownloadError where
  "createAuthRequiredError =
     \<lparr>message = ''Authentication required'', code = AUTH_REQUIRED,
      suggestion = ''This repo is private. Add a token.'', retryable = True\<rparr>"

definition createInvalidTokenError :: DownloadError where
  "createInvalidTokenError =
     \<lparr>message = ''Invalid or expired token'', code = INVALID_TOKEN,
      suggestion = ''Token may be expired or lack permissions'', retryable = True\<rparr>"

definition createNetworkError :: DownloadError where
  "createNetworkError =
     \<lparr>message = ''Network error'', code = NETWORK_ERROR,
      suggestion = ''Check your connection'', retryable = True\<rparr>"

definition createEmptyDirectoryError :: DownloadError where
  "createEmptyDirectoryError =
     \<lparr>message = ''Directory is empty'', code = EMPTY_DIRECTORY,
      suggestion = ''Directory exists but contains no files'', retryable = False\<rparr>"

definition createFileTooLargeError :: "string \<Rightarrow> DownloadError" where
  "createFileTooLargeError filename =
     \<lparr>message = ''File too large: '' @ filename, code = FILE_TOO_LARGE,
      suggestion = ''File exceeds 100MB browser download limit'', retryable = False\<rparr>"

definition createProviderError :: "string \<Rightarrow> DownloadError" where
  "createProviderError msg =
     \<lparr>message = msg, code = PROVIDER_ERROR,
      suggestion = ''Try again or check the URL'', retryable = True\<rparr>"

subsection \<open>The provider capability and the effects of the engine\<close>

text \<open>
  The \<^verbatim>\<open>RepoProvider\<close> of the CLI: its \<^verbatim>\<open>downloadFile\<close> takes the file and the token.
\<close>

record CliRepoProvider =
  name :: string
  fetchContents :: "FetchConfig \<Rightarrow> thrown + FileEntry list"
  downloadFile :: "FileEntry \<Rightarrow> string option \<Rightarrow> thrown + bytes"

text \<open>
  A \<^verbatim>\<open>RepoProvider\<close> of the web engine. Its two asynchronous methods are functions of the
  repository state read at call time: a rejected promise is \<open>Inl\<close>, a fulfilled one \<open>Inr\<close>.
\<close>

record RepoProvider =
  name :: string
  fetchContents :: "FetchConfig \<Rightarrow> thrown + FileEntry list"
  downloadFile :: "FileEntry \<Rightarrow> FetchConfig \<Rightarrow> thrown + bytes"

text \<open>
  The engine's calls to its collaborators, in the order they happen: a call of the
  \<^verbatim>\<open>onProgress\<close> callback, a call of \<^verbatim>\<open>provider.fetchContents\<close>, a call of
  \<^verbatim>\<open>provider.downloadFile\<close>, and the moment the promise of such a download settles.
\<close>

datatype effect =
    OnProgress DownloadProgress
  | FetchContentsCall FetchConfig
  | DownloadFileCall FileEntry
  | DownloadFileSettled FileEntry

section \<open>The web engine (\<^verbatim>\<open>client-download.ts\<close>)\<close>

definition CONCURRENT_DOWNLOADS :: nat where
  "CONCURRENT_DOWNLOADS = 6"

subsection \<open>\<^verbatim>\<open>collectFilesRecursively\<close>\<close>

text \<open>
  The array \<^verbatim>\<open>collectedFiles\<close> is mutated in place and the callback is called for its
  effect, so both are threaded through as a state, which survives a thrown error.
  The result is \<open>None\<close> when the recursion budget is used up (the source recursion need not
  end: a provider may list a directory inside itself), otherwise the error thrown, if
  any, and the state reached.
\<close>

record walk_state =
  collectedFiles :: "FileEntry list"
  effects :: "effect list"

definition reportFetching :: "walk_state \<Rightarrow> walk_state" where
  "reportFetching st =
     st\<lparr>effects := effects st @
        [OnProgress \<lparr>phase = fetching, current = length (collectedFiles st),
                     total = length (collectedFiles st), currentFile = None\<rparr>]\<rparr>"

text \<open>The \<^verbatim>\<open>for (const entry of entries)\<close> loop; \<open>recurse\<close> is the recursive call.\<close>

fun forEntries ::
  "(FetchConfig \<Rightarrow> walk_state \<Rightarrow> (thrown option \<times> walk_state) option) \<Rightarrow>
   FetchConfig \<Rightarrow> FileEntry list \<Rightarrow> walk_state \<Rightarrow> (thrown option \<times> walk_state) option" where
  "forEntries recurse config [] st = Some (None, st)"
| "forEntries recurse config (entry # rest) st =
     (if type entry = ''file'' then
        forEntries recurse config rest
          (reportFetching (st\<lparr>collectedFiles := collectedFiles st @ [entry]\<rparr>))
      else if type entry = ''dir'' then
        (case recurse (config\<lparr>FetchConfig.path := path entry\<rparr>) st of
           None \<Rightarrow> None
         | Some (Some err, st') \<Rightarrow> Some (Some err, st')
         | Some (None, st') \<Rightarrow> forEntries recurse config rest (reportFetching st'))
      else forEntries recurse config rest (reportFetching st))"

primrec collectFilesRecursively ::
  "nat \<Rightarrow> RepoProvider \<Rightarrow> FetchConfig \<Rightarrow> string \<Rightarrow> walk_state \<Rightarrow>
   (thrown option \<times> walk_state) option" where
  "collectFilesRecursively 0 provider config basePath st = None"
| "collectFilesRecursively (Suc fuel) provider config basePath st =
     (case fetchContents provider config of
        Inl err \<Rightarrow> Some (Some err, st\<lparr>effects := effects st @ [FetchContentsCall config]\<rparr>)
      | Inr entries \<Rightarrow>
          forEntries (\<lambda>c s. collectFilesRecursively fuel provider c basePath s) config entries
            (st\<lparr>effects := effects st @ [FetchContentsCall config]\<rparr>))"

subsection \<open>Relative paths\<close>

text \<open>
  \<^verbatim>\<open>s.startsWith(p)\<close>, \<^verbatim>\<open>s.slice(n)\<close> and \<^verbatim>\<open>xs.slice(a, b)\<close> for the arguments the
  engine passes (never negative, \<open>a \<le> b\<close>).
\<close>

definition startsWith :: "string \<Rightarrow> string \<Rightarrow> bool" where
  "startsWith s p = prefix p s"

definition sliceFrom :: "string \<Rightarrow> nat \<Rightarrow> string" where
  "sliceFrom s n = drop n s"

definition slice :: "'a list \<Rightarrow> nat \<Rightarrow> nat \<Rightarrow> 'a list" where
  "slice xs a b = take (b - a) (drop a xs)"

text \<open>
  The relative path computed inside \<^verbatim>\<open>downloadBatch\<close>, with the stripping of one leading
  slash done where the result object is built. \<open>config\<close> is the configuration of the whole
  operation: its \<^verbatim>\<open>path\<close> is the root path.
\<close>

definition relativePathOf :: "FetchConfig \<Rightarrow> FileEntry \<Rightarrow> string" where
  "relativePathOf config file =
     (let relativePath =
        (if FetchConfig.path config \<noteq> [] then
           (if startsWith (path file) (FetchConfig.path config @ ''/'') then
              sliceFrom (path file) (length (FetchConfig.path config) + 1)
            else if startsWith (path file) (FetchConfig.path config) then
              sliceFrom (path file) (length (FetchConfig.path config))
            else path file)
         else path file)
      in if startsWith relativePath ''/'' then sliceFrom relativePath 1 else relativePath)"

subsection \<open>\<^verbatim>\<open>collectFiles\<close>: the batches of downloads\<close>

text \<open>
  \<^verbatim>\<open>Promise.all\<close> over the promises of a batch. All promises are created at once; they
  settle in an order the network decides. That order is given by \<open>latency\<close>: the promise of
  a file settles after \<open>latency file\<close> ticks, ties in the order of the batch. The combined
  promise rejects with the first rejection in that order, and otherwise fulfils with the
  values in the order of the batch.
\<close>

fun firstRejection :: "(thrown + 'a) list \<Rightarrow> thrown option" where
  "firstRejection [] = None"
| "firstRejection (Inl err # rest) = Some err"
| "firstRejection (Inr v # rest) = firstRejection rest"

fun allFulfilled :: "(thrown + 'a) list \<Rightarrow> thrown + 'a list" where
  "allFulfilled [] = Inr []"
| "allFulfilled (Inl err # rest) = Inl err"
| "allFulfilled (Inr v # rest) =
     (case allFulfilled rest of Inl err \<Rightarrow> Inl err | Inr vs \<Rightarrow> Inr (v # vs))"

definition settleOrder :: "(FileEntry \<Rightarrow> nat) \<Rightarrow> FileEntry list \<Rightarrow> FileEntry list" where
  "settleOrder latency batch = sort_key latency batch"

record download_state =
  results :: "FileWithContent list"
  completed :: nat
  trace :: "effect list"

text \<open>
  What the asynchronous callback of \<^verbatim>\<open>downloadBatch\<close> returns for one file, once its
  download has settled: the rejection of \<^verbatim>\<open>provider.downloadFile\<close>, or the content under
  the relative path.
\<close>

definition downloadOne :: "RepoProvider \<Rightarrow> FetchConfig \<Rightarrow> FileEntry \<Rightarrow> thrown + FileWithContent" where
  "downloadOne provider config file =
     (case downloadFile provider file config of
        Inl err \<Rightarrow> Inl err
      | Inr data \<Rightarrow> Inr \<lparr>relativePath = relativePathOf config file, content = data\<rparr>)"

text \<open>
  One call of \<^verbatim>\<open>downloadBatch\<close>. Mapping the asynchronous callback over the batch runs
  each callback up to its \<^verbatim>\<open>await\<close>: the progress call, then the call of
  \<^verbatim>\<open>provider.downloadFile\<close>, for every file of the batch, before any download settles.
  So every progress event of the batch reports the \<^verbatim>\<open>completed\<close> count of the batch's
  start. Each fulfilled download increments \<^verbatim>\<open>completed\<close>.
\<close>

definition downloadBatch ::
  "RepoProvider \<Rightarrow> FetchConfig \<Rightarrow> (FileEntry \<Rightarrow> nat) \<Rightarrow> FileEntry list \<Rightarrow> FileEntry list \<Rightarrow>
   download_state \<Rightarrow> (thrown + FileWithContent list) \<times> download_state" where
  "downloadBatch provider config latency files batch st =
     (let started = concat (map (\<lambda>file.
            [OnProgress \<lparr>phase = downloading, current = completed st, total = length files,
                         currentFile = Some (FileEntry.name file)\<rparr>,
             DownloadFileCall file]) batch);
          settling = settleOrder latency batch;
          outcomes = map (downloadOne provider config) settling;
          st' = st\<lparr>completed := completed st + length (filter (\<lambda>r. \<not> isl r) outcomes),
                   trace := trace st @ started @ map DownloadFileSettled settling\<rparr>
      in case firstRejection outcomes of
           Some err \<Rightarrow> (Inl err, st')
         | None \<Rightarrow> (allFulfilled (map (downloadOne provider config) batch), st'))"

text \<open>The loop \<^verbatim>\<open>for (let i = 0; i < files.length; i += CONCURRENT_DOWNLOADS)\<close>.\<close>

function processBatches ::
  "RepoProvider \<Rightarrow> FetchConfig \<Rightarrow> (FileEntry \<Rightarrow> nat) \<Rightarrow> FileEntry list \<Rightarrow> nat \<Rightarrow>
   download_state \<Rightarrow> thrown option \<times> download_state" where
  "processBatches provider config latency files i st =
     (if i < length files then
        (case downloadBatch provider config latency files
                (slice files i (i + CONCURRENT_DOWNLOADS)) st of
           (Inl err, st') \<Rightarrow> (Some err, st')
         | (Inr batchResults, st') \<Rightarrow>
             processBatches provider config latency files (i + CONCURRENT_DOWNLOADS)
               (st'\<lparr>results := results st' @ batchResults\<rparr>))
      else (None, st))"
  by pat_completeness auto
termination
  by (relation "measure (\<lambda>(provider, config, latency, files, i, st). length files - i)")
     (auto simp: CONCURRENT_DOWNLOADS_def)

declare processBatches.simps [simp del]

text \<open>
  \<^verbatim>\<open>collectFiles\<close> starts with no file collected and one progress call.
\<close>

definition initialWalk :: walk_state where
  "initialWalk =
     \<lparr>collectedFiles = [],
      effects = [OnProgress \<lparr>phase = fetching, current = 0, total = 0, currentFile = None\<rparr>]\<rparr>"

definition collectFiles ::
  "nat \<Rightarrow> (FileEntry \<Rightarrow> nat) \<Rightarrow> RepoProvider \<Rightarrow> FetchConfig \<Rightarrow>
   ((thrown + FileWithContent list) \<times> effect list) option" where
  "collectFiles fuel latency provider config =
     (case collectFilesRecursively fuel provider config (FetchConfig.path config) initialWalk of
        None \<Rightarrow> None
      | Some (Some err, st) \<Rightarrow> Some (Inl err, effects st)
      | Some (None, st) \<Rightarrow>
          (if length (collectedFiles st) = 0 then
             Some (Inl (DownloadErr createEmptyDirectoryError), effects st)
           else
             (case processBatches provider config latency (collectedFiles st) 0
                     \<lparr>results = [], completed = 0, trace = effects st\<rparr> of
                (Some err, ds) \<Rightarrow> Some (Inl err, trace ds)
              | (None, ds) \<Rightarrow> Some (Inr (results ds), trace ds))))"

subsection \<open>\<^verbatim>\<open>createAndDownloadZip\<close> and \<^verbatim>\<open>downloadDirectory\<close>\<close>

text \<open>
  The archive is built by the JSZip library, which is not part of the repository; what
  the engine uses of it is modelled after the library's source. A \<^verbatim>\<open>JSZip\<close> object
  keeps its entries in \<^verbatim>\<open>this.files\<close>, an object keyed by entry name; an entry is a file
  with its content or a folder. \<^verbatim>\<open>zip.file(name, data)\<close> calls \<^verbatim>\<open>fileAdd\<close> with the default
  options (\<^verbatim>\<open>dir\<close> false, \<^verbatim>\<open>createFolders\<close> true): it first makes sure, through
  \<^verbatim>\<open>folderAdd\<close>, that the parent folder of the name has an entry, and so on upwards, and
  then stores the entry under the name, replacing an entry of that name. A folder that
  has an entry already is left as it is. \<^verbatim>\<open>generateAsync\<close> writes the entries that
  \<^verbatim>\<open>forEach\<close> visits, and \<^verbatim>\<open>forEach\<close> skips the entry whose name is the empty string.
  What the browser is handed is the file name of the download and the entries written.
\<close>

datatype zip_object = ZipFile bytes | ZipFolder

type_synonym zip_files = "string \<rightharpoonup> zip_object"

text \<open>\<^verbatim>\<open>s.lastIndexOf(c)\<close>, with \<open>None\<close> for -1, and \<^verbatim>\<open>path.slice(-1) === "/"\<close>.\<close>

fun lastIndexOf :: "char \<Rightarrow> string \<Rightarrow> nat option" where
  "lastIndexOf c [] = None"
| "lastIndexOf c (x # xs) =
     (case lastIndexOf c xs of
        Some i \<Rightarrow> Some (Suc i)
      | None \<Rightarrow> (if x = c then Some 0 else None))"

definition endsWithSlash :: "string \<Rightarrow> bool" where
  "endsWithSlash p = (p \<noteq> [] \<and> last p = CHR ''/'')"

definition parentFolder :: "string \<Rightarrow> string" where
  "parentFolder p =
     (let p' = (if endsWithSlash p then butlast p else p)
      in case lastIndexOf CHR ''/'' p' of
           None \<Rightarrow> []
         | Some lastSlash \<Rightarrow> (if lastSlash > 0 then take lastSlash p' else []))"

definition forceTrailingSlash :: "string \<Rightarrow> string" where
  "forceTrailingSlash p = (if endsWithSlash p then p else p @ ''/'')"

text \<open>
  \<^verbatim>\<open>fileAdd\<close> and \<^verbatim>\<open>folderAdd\<close> call each other: \<open>data\<close> is \<open>None\<close> for \<^verbatim>\<open>null\<close>, \<open>dir\<close> is the
  option \<^verbatim>\<open>dir\<close>; the option \<^verbatim>\<open>createFolders\<close> is true in every call the engine causes. Empty
  or absent data is stored as the empty content. The recursion ends because a parent
  folder is shorter than the name it is the parent of.
\<close>

function fileAdd :: "string \<Rightarrow> bytes option \<Rightarrow> bool \<Rightarrow> zip_files \<Rightarrow> zip_files"
  and folderAdd :: "string \<Rightarrow> zip_files \<Rightarrow> zip_files" where
  "fileAdd nm data dir files =
     (let nm' = (if dir then forceTrailingSlash nm else nm);
          parent = parentFolder nm';
          files' = (if parent \<noteq> [] then folderAdd parent files else files)
      in files'(nm' \<mapsto>
           (if dir then ZipFolder else ZipFile (case data of None \<Rightarrow> [] | Some d \<Rightarrow> d))))"
| "folderAdd nm files =
     (let nm' = forceTrailingSlash nm
      in if files nm' \<noteq> None then files else fileAdd nm' None True files)"
  by pat_completeness auto
termination
proof (relation "measure (\<lambda>x. case x of
          Inl (nm, data, dir, files) \<Rightarrow>
            2 * length (if endsWithSlash nm then butlast nm else nm) + 1
        | Inr (nm, files) \<Rightarrow>
            2 * length (if endsWithSlash nm then butlast nm else nm) + 2)")
  show "wf (measure (\<lambda>x. case x of
          Inl (nm, data, dir, files) \<Rightarrow>
            2 * length (if endsWithSlash nm then butlast nm else nm) + 1
        | Inr (nm, files) \<Rightarrow>
            2 * length (if endsWithSlash nm then butlast nm else nm) + 2))"
    by simp
next
  fix nm :: string and data :: "bytes option" and dir :: bool and files :: zip_files
    and x xa
  assume x: "x = (if dir then forceTrailingSlash nm else nm)" and xa: "xa = parentFolder x"
    and ne: "xa \<noteq> []"
  define a where "a = length (if endsWithSlash xa then butlast xa else xa)"
  define b where "b = length (if endsWithSlash nm then butlast nm else nm)"
  have bound: "lastIndexOf c s = Some i \<Longrightarrow> i < length s" for c s i
    by (induction s arbitrary: i) (auto split: option.splits if_splits)
  have "a \<le> length xa" by (simp add: a_def)
  moreover have "length xa < length (if endsWithSlash x then butlast x else x)"
    using ne bound[of "CHR ''/''" "if endsWithSlash x then butlast x else x"]
    unfolding xa parentFolder_def Let_def
    by (auto split: option.splits if_splits)
  moreover have "length (if endsWithSlash x then butlast x else x) = b"
    unfolding x b_def by (simp add: forceTrailingSlash_def endsWithSlash_def)
  ultimately have "2 * a + 2 < 2 * b + 1" by simp
  then show "(Inr (xa, files), Inl (nm, data, dir, files)) \<in> measure (\<lambda>x. case x of
          Inl (nm, data, dir, files) \<Rightarrow>
            2 * length (if endsWithSlash nm then butlast nm else nm) + 1
        | Inr (nm, files) \<Rightarrow>
            2 * length (if endsWithSlash nm then butlast nm else nm) + 2)"
    unfolding a_def b_def by (simp only: in_measure sum.case prod.case)
next
  fix nm :: string and files :: zip_files and x
  assume "x = forceTrailingSlash nm"
  then show "(Inl (x, None, True, files), Inr (nm, files)) \<in> measure (\<lambda>x. case x of
          Inl (nm, data, dir, files) \<Rightarrow>
            2 * length (if endsWithSlash nm then butlast nm else nm) + 1
        | Inr (nm, files) \<Rightarrow>
            2 * length (if endsWithSlash nm then butlast nm else nm) + 2)"
    by (simp add: forceTrailingSlash_def endsWithSlash_def)
qed

declare fileAdd.simps [simp del] folderAdd.simps [simp del]

text \<open>
  \<^verbatim>\<open>zip.file(nm, data)\<close> on a new \<^verbatim>\<open>JSZip\<close> object, whose root is the empty string, and
  the entries \<^verbatim>\<open>generateAsync\<close> writes.
\<close>

definition zip_file :: "string \<Rightarrow> bytes \<Rightarrow> zip_files \<Rightarrow> zip_files" where
  "zip_file nm data files = fileAdd nm (Some data) False files"

definition generateAsync :: "zip_files \<Rightarrow> zip_files" where
  "generateAsync files = (\<lambda>nm. if nm = [] then None else files nm)"

record zip_download =
  filename :: string
  zipEntries :: zip_files

fun zipLoop ::
  "FileWithContent list \<Rightarrow> nat \<Rightarrow> nat \<Rightarrow> zip_files \<Rightarrow> effect list \<Rightarrow> zip_files \<times> effect list" where
  "zipLoop [] i n archive tr = (archive, tr)"
| "zipLoop (file # rest) i n archive tr =
     zipLoop rest (i + 1) n (zip_file (relativePath file) (content file) archive)
       (tr @ [OnProgress \<lparr>phase = zipping, current = i + 1, total = n,
                          currentFile = Some (relativePath file)\<rparr>])"

definition createAndDownloadZip ::
  "FileWithContent list \<Rightarrow> string \<Rightarrow> effect list \<Rightarrow> zip_download \<times> effect list" where
  "createAndDownloadZip files fname tr =
     (case zipLoop files 0 (length files) Map.empty
             (tr @ [OnProgress \<lparr>phase = zipping, current = 0, total = length files,
                                currentFile = None\<rparr>]) of
        (archive, tr') \<Rightarrow> (\<lparr>filename = fname, zipEntries = generateAsync archive\<rparr>, tr'))"

text \<open>\<^verbatim>\<open>s.split(sep)\<close> for a separator of one character.\<close>

fun splitString :: "char \<Rightarrow> string \<Rightarrow> string list" where
  "splitString sep [] = [[]]"
| "splitString sep (c # cs) =
     (if c = sep then [] # splitString sep cs
      else (case splitString sep cs of w # ws \<Rightarrow> (c # w) # ws | [] \<Rightarrow> [[c]]))"

definition dirNameOf :: "FetchConfig \<Rightarrow> string" where
  "dirNameOf config =
     (if FetchConfig.path config \<noteq> [] then
        (case rev (filter (\<lambda>s. s \<noteq> []) (splitString CHR ''/'' (FetchConfig.path config))) of
           [] \<Rightarrow> repo config
         | d # _ \<Rightarrow> (if d \<noteq> [] then d else repo config))
      else repo config)"

definition downloadDirectory ::
  "nat \<Rightarrow> (FileEntry \<Rightarrow> nat) \<Rightarrow> RepoProvider \<Rightarrow> FetchConfig \<Rightarrow>
   ((thrown + zip_download) \<times> effect list) option" where
  "downloadDirectory fuel latency provider config =
     (case collectFiles fuel latency provider config of
        None \<Rightarrow> None
      | Some (Inl err, tr) \<Rightarrow> Some (Inl err, tr)
      | Some (Inr files, tr) \<Rightarrow>
          (case createAndDownloadZip files (dirNameOf config @ ''.zip'') tr of
             (z, tr') \<Rightarrow> Some (Inr z, tr')))"

section \<open>The provider adapters\<close>

subsection \<open>The network\<close>

text \<open>
  The adapters reach the hosting services through \<^verbatim>\<open>fetch\<close>. A reply is read either as
  JSON or as raw bytes. Of a JSON reply only the fields the adapters read are kept: an
  object of a listing (or a blob object, with its \<^verbatim>\<open>content\<close>) is an \<open>api_item\<close>, with
  \<open>None\<close> for a field that is absent or \<^verbatim>\<open>null\<close>. A body that does not parse, or that
  lacks the shape an adapter reads, makes the adapter throw a plain error.
  The builtins \<^verbatim>\<open>encodeURIComponent\<close>, \<^verbatim>\<open>atob\<close> and \<^verbatim>\<open>Buffer.from(s, "base64")\<close> are
  parameters of the environment, as is \<^verbatim>\<open>fetch\<close> itself.
  Every adapter function returns, besides its result, the requests it has sent.
\<close>

record api_item =
  item_name :: string
  item_path :: string
  item_type :: string
  item_size :: "nat option"
  item_download_url :: "string option"
  item_sha :: "string option"
  item_id :: "string option"
  item_content :: "string option"

datatype json = JsonArray "api_item list" | JsonObject api_item | NotJson

record response =
  status :: nat
  statusText :: string
  rateLimitRemaining :: "string option"
  json :: json
  arrayBuffer :: bytes

datatype fetch_outcome = Fulfilled response | RejectedAbort | RejectedOther string

type_synonym headers = "(string \<times> string) list"
type_synonym request = "string \<times> headers"

record env =
  fetch :: "string \<Rightarrow> headers \<Rightarrow> fetch_outcome"
  encodeURIComponent :: "string \<Rightarrow> string"
  atob :: "string \<Rightarrow> bytes option"
  bufferFromBase64 :: "string \<Rightarrow> bytes"

definition ok :: "response \<Rightarrow> bool" where
  "ok r = (200 \<le> status r \<and> status r \<le> 299)"

text \<open>A string that may be absent is truthy when it is present and not empty.\<close>

definition truthy :: "string option \<Rightarrow> bool" where
  "truthy s = (case s of None \<Rightarrow> False | Some v \<Rightarrow> v \<noteq> [])"

text \<open>A number in a template literal: its decimal digits.\<close>

function numberToString :: "nat \<Rightarrow> string" where
  "numberToString n =
     (if n < 10 then [''0123456789'' ! n]
      else numberToString (n div 10) @ [''0123456789'' ! (n mod 10)])"
  by pat_completeness auto
termination
  by (relation "measure (\<lambda>n. n)") auto

declare numberToString.simps [simp del]

definition MAX_FILE_SIZE :: nat where
  "MAX_FILE_SIZE = 100 * 1024 * 1024"

text \<open>
  The \<^verbatim>\<open>try\<close>/\<^verbatim>\<open>catch\<close> around every \<^verbatim>\<open>fetch\<close> of the web adapters: an abort is rethrown,
  any other rejection becomes a network error.
\<close>

definition webFetch :: "env \<Rightarrow> string \<Rightarrow> headers \<Rightarrow> thrown + response" where
  "webFetch env url hs =
     (case fetch env url hs of
        Fulfilled r \<Rightarrow> Inr r
      | RejectedAbort \<Rightarrow> Inl AbortError
      | RejectedOther m \<Rightarrow> Inl (DownloadErr createNetworkError))"

subsection \<open>GitHub, web (\<^verbatim>\<open>web/lib/providers/github.ts\<close>)\<close>

definition GITHUB_API :: string where
  "GITHUB_API = ''https://api.github.com''"

definition github_getHeaders :: "string option \<Rightarrow> headers" where
  "github_getHeaders tok =
     [(''Accept'', ''application/vnd.github.v3+json''), (''User-Agent'', ''subdir-web'')] @
     (case tok of
        None \<Rightarrow> []
      | Some t \<Rightarrow> (if t \<noteq> [] then [(''Authorization'', ''Bearer '' @ t)] else []))"

definition github_toEntry :: "api_item \<Rightarrow> FileEntry" where
  "github_toEntry item =
     \<lparr>FileEntry.name = item_name item, path = item_path item,
      type = (if item_type item = ''dir'' then ''dir'' else ''file''),
      size_f = (case item_size item of None \<Rightarrow> 0 | Some n \<Rightarrow> n),
      downloadUrl = item_download_url item, sha = item_sha item, id_f = None\<rparr>"

definition github_fetchContents ::
  "env \<Rightarrow> FetchConfig \<Rightarrow> (thrown + FileEntry list) \<times> request list" where
  "github_fetchContents env config =
     (let url = GITHUB_API @ ''/repos/'' @ owner config @ ''/'' @ repo config @ ''/contents/'' @
                FetchConfig.path config @ ''?ref='' @ branch config;
          hs = github_getHeaders (token config)
      in (case webFetch env url hs of
            Inl err \<Rightarrow> Inl err
          | Inr response \<Rightarrow>
              (if \<not> ok response then
                 (if status response = 404 then Inl (DownloadErr createNotFoundError)
                  else if status response = 403 then
                    (if rateLimitRemaining response = Some ''0''
                     then Inl (DownloadErr (createRateLimitError ''GitHub''))
                     else Inl (DownloadErr createInvalidTokenError))
                  else if status response = 401 then Inl (DownloadErr createAuthRequiredError)
                  else Inl (DownloadErr (createProviderError
                         (''GitHub API error: '' @ numberToString (status response)))))
               else
                 (case json response of
                    NotJson \<Rightarrow> Inl (JsError ''SyntaxError'')
                  | JsonArray data \<Rightarrow> Inr (map github_toEntry data)
                  | JsonObject data \<Rightarrow> Inr (map github_toEntry [data]))),
          [(url, hs)]))"

text \<open>
  \<^verbatim>\<open>downloadFile\<close>: the size check comes first; then the blob API for a file of more than
  1MB with a \<^verbatim>\<open>sha\<close>, and the download URL otherwise. The two transfers are written as
  functions of their own here.
\<close>

definition github_downloadBlob ::
  "env \<Rightarrow> string \<Rightarrow> FetchConfig \<Rightarrow> (thrown + bytes) \<times> request list" where
  "github_downloadBlob env fileSha config =
     (let blobUrl = GITHUB_API @ ''/repos/'' @ owner config @ ''/'' @ repo config @
                    ''/git/blobs/'' @ fileSha;
          hs = github_getHeaders (token config)
      in (case webFetch env blobUrl hs of
            Inl err \<Rightarrow> Inl err
          | Inr response \<Rightarrow>
              (if \<not> ok response then
                 Inl (DownloadErr (createProviderError
                   (''Failed to download blob: '' @ numberToString (status response))))
               else
                 (case json response of
                    JsonObject blob \<Rightarrow>
                      (case item_content blob of
                         None \<Rightarrow> Inl (JsError ''InvalidCharacterError'')
                       | Some encoded \<Rightarrow>
                           (case atob env encoded of
                              None \<Rightarrow> Inl (JsError ''InvalidCharacterError'')
                            | Some decoded \<Rightarrow> Inr decoded))
                  | JsonArray data \<Rightarrow> Inl (JsError ''InvalidCharacterError'')
                  | NotJson \<Rightarrow> Inl (JsError ''SyntaxError''))),
          [(blobUrl, hs)]))"

definition github_downloadRaw ::
  "env \<Rightarrow> FileEntry \<Rightarrow> FetchConfig \<Rightarrow> (thrown + bytes) \<times> request list" where
  "github_downloadRaw env file config =
     (let fallbackUrl = ''https://raw.githubusercontent.com/'' @ owner config @ ''/'' @
                        repo config @ ''/'' @ branch config @ ''/'' @ path file;
          rawUrl = (case downloadUrl file of
                      None \<Rightarrow> fallbackUrl
                    | Some u \<Rightarrow> (if u \<noteq> [] then u else fallbackUrl));
          hs = [(''User-Agent'', ''subdir-web'')] @
               (case token config of
                  None \<Rightarrow> []
                | Some t \<Rightarrow> (if t \<noteq> [] then [(''Authorization'', ''Bearer '' @ t)] else []))
      in (case webFetch env rawUrl hs of
            Inl err \<Rightarrow> Inl err
          | Inr response \<Rightarrow>
              (if \<not> ok response then
                 Inl (DownloadErr (createProviderError
                   (''Failed to download file: '' @ numberToString (status response))))
               else Inr (arrayBuffer response)),
          [(rawUrl, hs)]))"

definition github_downloadFile ::
  "env \<Rightarrow> FileEntry \<Rightarrow> FetchConfig \<Rightarrow> (thrown + bytes) \<times> request list" where
  "github_downloadFile env file config =
     (if size_f file > MAX_FILE_SIZE then
        (Inl (DownloadErr (createFileTooLargeError (FileEntry.name file))), [])
      else
        (case sha file of
           None \<Rightarrow> github_downloadRaw env file config
         | Some fileSha \<Rightarrow>
             (if size_f file > 1024 * 1024 \<and> fileSha \<noteq> []
              then github_downloadBlob env fileSha config
              else github_downloadRaw env file config)))"

definition github :: "env \<Rightarrow> RepoProvider" where
  "github env =
     \<lparr>RepoProvider.name = ''github'',
      fetchContents = (\<lambda>config. fst (github_fetchContents env config)),
      downloadFile = (\<lambda>file config. fst (github_downloadFile env file config))\<rparr>"

subsection \<open>GitLab, web (\<^verbatim>\<open>web/lib/providers/gitlab.ts\<close>)\<close>

definition GITLAB_API :: string where
  "GITLAB_API = ''https://gitlab.com/api/v4''"

definition gitlab_getHeaders :: "string option \<Rightarrow> headers" where
  "gitlab_getHeaders tok =
     [(''User-Agent'', ''subdir-web'')] @
     (case tok of
        None \<Rightarrow> []
      | Some t \<Rightarrow> (if t \<noteq> [] then [(''PRIVATE-TOKEN'', t)] else []))"

definition encodeProjectId :: "env \<Rightarrow> string \<Rightarrow> string \<Rightarrow> string" where
  "encodeProjectId env ownr rep = encodeURIComponent env (ownr @ ''/'' @ rep)"

definition gitlab_toEntry :: "api_item \<Rightarrow> FileEntry" where
  "gitlab_toEntry item =
     \<lparr>FileEntry.name = item_name item, path = item_path item,
      type = (if item_type item = ''tree'' then ''dir'' else ''file''),
      size_f = 0,
      downloadUrl = None, sha = None, id_f = item_id item\<rparr>"

definition gitlab_fetchContents ::
  "env \<Rightarrow> FetchConfig \<Rightarrow> (thrown + FileEntry list) \<times> request list" where
  "gitlab_fetchContents env config =
     (let projectId = encodeProjectId env (owner config) (repo config);
          encodedPath = (if FetchConfig.path config \<noteq> []
                         then ''&path='' @ encodeURIComponent env (FetchConfig.path config)
                         else []);
          url = GITLAB_API @ ''/projects/'' @ projectId @ ''/repository/tree?ref='' @
                branch config @ encodedPath @ ''&per_page=100'';
          hs = gitlab_getHeaders (token config)
      in (case webFetch env url hs of
            Inl err \<Rightarrow> Inl err
          | Inr response \<Rightarrow>
              (if \<not> ok response then
                 (if status response = 404 then Inl (DownloadErr createNotFoundError)
                  else if status response = 401 then Inl (DownloadErr createAuthRequiredError)
                  else Inl (DownloadErr (createProviderError
                         (''GitLab API error: '' @ numberToString (status response)))))
               else
                 (case json response of
                    NotJson \<Rightarrow> Inl (JsError ''SyntaxError'')
                  | JsonArray data \<Rightarrow> Inr (map gitlab_toEntry data)
                  | JsonObject data \<Rightarrow> Inl (JsError ''TypeError''))),
          [(url, hs)]))"

definition gitlab_downloadFile ::
  "env \<Rightarrow> FileEntry \<Rightarrow> FetchConfig \<Rightarrow> (thrown + bytes) \<times> request list" where
  "gitlab_downloadFile env file config =
     (if size_f file > MAX_FILE_SIZE then
        (Inl (DownloadErr (createFileTooLargeError (FileEntry.name file))), [])
      else
        (let projectId = encodeProjectId env (owner config) (repo config);
             encodedPath = encodeURIComponent env (path file);
             url = GITLAB_API @ ''/projects/'' @ projectId @ ''/repository/files/'' @
                   encodedPath @ ''/raw?ref='' @ branch config;
             hs = gitlab_getHeaders (token config)
         in (case webFetch env url hs of
               Inl err \<Rightarrow> Inl err
             | Inr response \<Rightarrow>
                 (if \<not> ok response then
                    Inl (DownloadErr (createProviderError
                      (''Failed to download file: '' @ numberToString (status response))))
                  else Inr (arrayBuffer response)),
             [(url, hs)])))"

definition gitlab :: "env \<Rightarrow> RepoProvider" where
  "gitlab env =
     \<lparr>RepoProvider.name = ''gitlab'',
      fetchContents = (\<lambda>config. fst (gitlab_fetchContents env config)),
      downloadFile = (\<lambda>file config. fst (gitlab_downloadFile env file config))\<rparr>"

section \<open>The command-line tool\<close>

subsection \<open>GitHub, CLI (\<^verbatim>\<open>cli/src/providers/github.ts\<close>)\<close>

text \<open>
  The CLI does not catch a rejected \<^verbatim>\<open>fetch\<close>: the rejection is what the adapter throws.
  Its errors are plain \<^verbatim>\<open>Error\<close> objects with a message.
\<close>

definition cliFetch :: "env \<Rightarrow> string \<Rightarrow> headers \<Rightarrow> thrown + response" where
  "cliFetch env url hs =
     (case fetch env url hs of
        Fulfilled r \<Rightarrow> Inr r
      | RejectedAbort \<Rightarrow> Inl AbortError
      | RejectedOther m \<Rightarrow> Inl (JsError m))"

definition API_BASE_github :: string where
  "API_BASE_github = ''https://api.github.com''"

definition LARGE_FILE_THRESHOLD :: nat where
  "LARGE_FILE_THRESHOLD = 1024 * 1024"

definition cli_github_getHeaders :: "string option \<Rightarrow> headers" where
  "cli_github_getHeaders tok =
     [(''Accept'', ''application/vnd.github.v3+json''), (''User-Agent'', ''ghdir-cli'')] @
     (case tok of
        None \<Rightarrow> []
      | Some t \<Rightarrow> (if t \<noteq> [] then [(''Authorization'', ''Bearer '' @ t)] else []))"

definition fetchContentsApi ::
  "env \<Rightarrow> string \<Rightarrow> string \<Rightarrow> string \<Rightarrow> string \<Rightarrow> string option \<Rightarrow>
   (thrown + api_item list) \<times> request list" where
  "fetchContentsApi env ownr rep pth brnch tok =
     (let url = API_BASE_github @ ''/repos/'' @ ownr @ ''/'' @ rep @ ''/contents/'' @ pth @
                ''?ref='' @ brnch;
          hs = cli_github_getHeaders tok
      in (case cliFetch env url hs of
            Inl err \<Rightarrow> Inl err
          | Inr res \<Rightarrow>
              (if \<not> ok res then
                 (if status res = 404 then Inl (JsError (''Path not found: '' @ pth))
                  else if status res = 403 then
                    (if rateLimitRemaining res = Some ''0''
                     then Inl (JsError
                            ''GitHub API rate limit exceeded. Use --token for higher limits.'')
                     else Inl (JsError ''Access forbidden. Check your token permissions.''))
                  else if status res = 401 then Inl (JsError ''Invalid GitHub token.'')
                  else Inl (JsError (''GitHub API error: '' @ numberToString (status res) @
                                     '' '' @ statusText res)))
               else
                 (case json res of
                    NotJson \<Rightarrow> Inl (JsError ''SyntaxError'')
                  | JsonArray data \<Rightarrow> Inr data
                  | JsonObject data \<Rightarrow> Inr [data])),
          [(url, hs)]))"

definition fetchBlob ::
  "env \<Rightarrow> string \<Rightarrow> string \<Rightarrow> string \<Rightarrow> string option \<Rightarrow> (thrown + bytes) \<times> request list" where
  "fetchBlob env ownr rep fileSha tok =
     (let url = API_BASE_github @ ''/repos/'' @ ownr @ ''/'' @ rep @ ''/git/blobs/'' @ fileSha;
          hs = cli_github_getHeaders tok
      in (case cliFetch env url hs of
            Inl err \<Rightarrow> Inl err
          | Inr res \<Rightarrow>
              (if \<not> ok res then
                 Inl (JsError (''Failed to fetch blob: '' @ numberToString (status res) @
                               '' '' @ statusText res))
               else
                 (case json res of
                    JsonObject data \<Rightarrow>
                      (case item_content data of
                         None \<Rightarrow> Inl (JsError ''TypeError'')
                       | Some encoded \<Rightarrow> Inr (bufferFromBase64 env encoded))
                  | JsonArray data \<Rightarrow> Inl (JsError ''TypeError'')
                  | NotJson \<Rightarrow> Inl (JsError ''SyntaxError''))),
          [(url, hs)]))"

definition downloadRaw ::
  "env \<Rightarrow> string \<Rightarrow> string option \<Rightarrow> (thrown + bytes) \<times> request list" where
  "downloadRaw env url tok =
     (let hs = cli_github_getHeaders tok
      in (case cliFetch env url hs of
            Inl err \<Rightarrow> Inl err
          | Inr res \<Rightarrow>
              (if \<not> ok res then
                 Inl (JsError (''Failed to download file: '' @ numberToString (status res) @
                               '' '' @ statusText res))
               else Inr (arrayBuffer res)),
          [(url, hs)]))"

text \<open>
  \<^verbatim>\<open>github.fetchContents\<close> of the CLI keeps only the items of type \<^verbatim>\<open>"file"\<close> and
  \<^verbatim>\<open>"dir"\<close>. An absent \<^verbatim>\<open>size\<close> is read as 0 (it is only ever compared with \<open>>\<close>).
\<close>

definition cli_github_toEntry :: "api_item \<Rightarrow> FileEntry" where
  "cli_github_toEntry item =
     \<lparr>FileEntry.name = item_name item, path = item_path item, type = item_type item,
      size_f = (case item_size item of None \<Rightarrow> 0 | Some n \<Rightarrow> n),
      downloadUrl = item_download_url item, sha = item_sha item, id_f = None\<rparr>"

definition cli_github_fetchContents ::
  "env \<Rightarrow> FetchConfig \<Rightarrow> (thrown + FileEntry list) \<times> request list" where
  "cli_github_fetchContents env config =
     (case fetchContentsApi env (owner config) (repo config) (FetchConfig.path config)
             (branch config) (token config) of
        (Inl err, reqs) \<Rightarrow> (Inl err, reqs)
      | (Inr contents, reqs) \<Rightarrow>
          (Inr (map cli_github_toEntry
                  (filter (\<lambda>item. item_type item = ''file'' \<or> item_type item = ''dir'') contents)),
           reqs))"

definition cli_github_downloadFile ::
  "env \<Rightarrow> FileEntry \<Rightarrow> string option \<Rightarrow> (thrown + bytes) \<times> request list" where
  "cli_github_downloadFile env file tok =
     (case downloadUrl file of
        None \<Rightarrow> (Inl (JsError ''Use downloadGitHubFile with config for this file''), [])
      | Some u \<Rightarrow>
          (if size_f file > LARGE_FILE_THRESHOLD \<or> u = []
           then (Inl (JsError ''Use downloadGitHubFile with config for this file''), [])
           else downloadRaw env u tok))"

definition downloadGitHubFile ::
  "env \<Rightarrow> FileEntry \<Rightarrow> FetchConfig \<Rightarrow> (thrown + bytes) \<times> request list" where
  "downloadGitHubFile env file config =
     (let viaBlob =
            (case sha file of
               None \<Rightarrow> (Inl (JsError (''Cannot download file without sha: '' @ path file)), [])
             | Some fileSha \<Rightarrow>
                 (if fileSha = []
                  then (Inl (JsError (''Cannot download file without sha: '' @ path file)), [])
                  else fetchBlob env (owner config) (repo config) fileSha (token config)))
      in (case downloadUrl file of
            None \<Rightarrow> viaBlob
          | Some u \<Rightarrow>
              (if size_f file > LARGE_FILE_THRESHOLD \<or> u = [] then viaBlob
               else downloadRaw env u (token config))))"

subsection \<open>GitLab, CLI (\<^verbatim>\<open>cli/src/providers/gitlab.ts\<close>)\<close>

definition API_BASE_gitlab :: string where
  "API_BASE_gitlab = ''https://gitlab.com/api/v4''"

definition cli_gitlab_getHeaders :: "string option \<Rightarrow> headers" where
  "cli_gitlab_getHeaders tok =
     [(''User-Agent'', ''ghdir-cli'')] @
     (case tok of
        None \<Rightarrow> []
      | Some t \<Rightarrow> (if t \<noteq> [] then [(''PRIVATE-TOKEN'', t)] else []))"

text \<open>
  The pagination loop \<^verbatim>\<open>while (true)\<close> of \<^verbatim>\<open>fetchContents\<close>: it ends at the first page
  with fewer than \<^verbatim>\<open>perPage\<close> items, or with an error. A server that keeps sending full
  pages keeps it running, so the loop has a budget of pages and \<open>None\<close> says it ran out.
  A page whose JSON is an object, not an array, is appended as one item by
  \<^verbatim>\<open>allItems.concat(items)\<close>; its \<^verbatim>\<open>length\<close> is undefined, the comparison with \<^verbatim>\<open>perPage\<close> is
  false, and the loop goes on to the next page.
\<close>

primrec cli_gitlab_pages ::
  "nat \<Rightarrow> env \<Rightarrow> FetchConfig \<Rightarrow> nat \<Rightarrow> api_item list \<Rightarrow> request list \<Rightarrow>
   ((thrown + api_item list) \<times> request list) option" where
  "cli_gitlab_pages 0 env config page allItems reqs = None"
| "cli_gitlab_pages (Suc fuel) env config page allItems reqs =
     (let projectId = encodeProjectId env (owner config) (repo config);
          encodedPath = encodeURIComponent env (FetchConfig.path config);
          url = API_BASE_gitlab @ ''/projects/'' @ projectId @ ''/repository/tree?path='' @
                encodedPath @ ''&ref='' @ branch config @ ''&per_page='' @ numberToString 100 @
                ''&page='' @ numberToString page;
          hs = cli_gitlab_getHeaders (token config)
      in (case cliFetch env url hs of
            Inl err \<Rightarrow> Some (Inl err, reqs @ [(url, hs)])
          | Inr res \<Rightarrow>
              (if \<not> ok res then
                 (if status res = 404
                  then Some (Inl (JsError (''Path not found: '' @ FetchConfig.path config)),
                             reqs @ [(url, hs)])
                  else if status res = 401
                  then Some (Inl (JsError
                         ''GitLab authentication failed. Use --token for private repos.''),
                             reqs @ [(url, hs)])
                  else Some (Inl (JsError (''GitLab API error: '' @ numberToString (status res) @
                                           '' '' @ statusText res)),
                             reqs @ [(url, hs)]))
               else
                 (case json res of
                    NotJson \<Rightarrow> Some (Inl (JsError ''SyntaxError''), reqs @ [(url, hs)])
                  | JsonObject data \<Rightarrow>
                      cli_gitlab_pages fuel env config (page + 1) (allItems @ [data])
                        (reqs @ [(url, hs)])
                  | JsonArray pageItems \<Rightarrow>
                      (if length pageItems < 100
                       then Some (Inr (allItems @ pageItems), reqs @ [(url, hs)])
                       else cli_gitlab_pages fuel env config (page + 1) (allItems @ pageItems)
                              (reqs @ [(url, hs)]))))))"

definition cli_gitlab_fetchContents ::
  "nat \<Rightarrow> env \<Rightarrow> FetchConfig \<Rightarrow> ((thrown + FileEntry list) \<times> request list) option" where
  "cli_gitlab_fetchContents fuel env config =
     (case cli_gitlab_pages fuel env config 1 [] [] of
        None \<Rightarrow> None
      | Some (Inl err, reqs) \<Rightarrow> Some (Inl err, reqs)
      | Some (Inr allItems, reqs) \<Rightarrow> Some (Inr (map gitlab_toEntry allItems), reqs))"

definition cli_gitlab_downloadFile ::
  "env \<Rightarrow> FileEntry \<Rightarrow> string option \<Rightarrow> (thrown + bytes) \<times> request list" where
  "cli_gitlab_downloadFile env file tok = (Inl (JsError ''Use downloadGitLabFile with config''), [])"

definition downloadGitLabFile ::
  "env \<Rightarrow> FileEntry \<Rightarrow> FetchConfig \<Rightarrow> (thrown + bytes) \<times> request list" where
  "downloadGitLabFile env file config =
     (let projectId = encodeProjectId env (owner config) (repo config);
          encodedPath = encodeURIComponent env (path file);
          url = API_BASE_gitlab @ ''/projects/'' @ projectId @ ''/repository/files/'' @
                encodedPath @ ''/raw?ref='' @ branch config;
          hs = cli_gitlab_getHeaders (token config)
      in (case cliFetch env url hs of
            Inl err \<Rightarrow> Inl err
          | Inr res \<Rightarrow>
              (if \<not> ok res then
                 Inl (JsError (''Failed to download file '' @ path file @ '': '' @
                               numberToString (status res) @ '' '' @ statusText res))
               else Inr (arrayBuffer res)),
          [(url, hs)]))"

subsection \<open>The CLI engine (\<^verbatim>\<open>cli/src/download.ts\<close>)\<close>

text \<open>
  \<^verbatim>\<open>s.replace(pattern, replacement)\<close> with a string pattern replaces the first occurrence
  of the pattern, wherever it is; \<^verbatim>\<open>s.replace(/^\//, "")\<close> removes one leading slash.
\<close>

fun replaceString :: "string \<Rightarrow> string \<Rightarrow> string \<Rightarrow> string" where
  "replaceString pattern replacement [] = (if pattern = [] then replacement else [])"
| "replaceString pattern replacement (c # cs) =
     (if prefix pattern (c # cs) then replacement @ drop (length pattern) (c # cs)
      else c # replaceString pattern replacement cs)"

definition stripLeadingSlash :: "string \<Rightarrow> string" where
  "stripLeadingSlash s = (case s of [] \<Rightarrow> [] | c # cs \<Rightarrow> (if c = CHR ''/'' then cs else s))"

definition cli_relativePath :: "string \<Rightarrow> FileEntry \<Rightarrow> string" where
  "cli_relativePath basePath item = stripLeadingSlash (replaceString basePath [] (path item))"

text \<open>
  \<^verbatim>\<open>collectFiles\<close> of the CLI: the loop over the listing, and the recursion with its
  budget (\<open>None\<close> when it is used up).
\<close>

fun cli_forItems ::
  "(FetchConfig \<Rightarrow> (thrown + FileToDownload list) option) \<Rightarrow> FetchConfig \<Rightarrow> string \<Rightarrow>
   FileEntry list \<Rightarrow> FileToDownload list \<Rightarrow> (thrown + FileToDownload list) option" where
  "cli_forItems recurse config basePath [] files = Some (Inr files)"
| "cli_forItems recurse config basePath (item # rest) files =
     (if type item = ''file'' then
        cli_forItems recurse config basePath rest
          (files @ [\<lparr>file_e = item, FileToDownload.relativePath = cli_relativePath basePath item\<rparr>])
      else if type item = ''dir'' then
        (case recurse (config\<lparr>FetchConfig.path := path item\<rparr>) of
           None \<Rightarrow> None
         | Some (Inl err) \<Rightarrow> Some (Inl err)
         | Some (Inr subFiles) \<Rightarrow> cli_forItems recurse config basePath rest (files @ subFiles))
      else cli_forItems recurse config basePath rest files)"

primrec cli_collectFiles ::
  "nat \<Rightarrow> CliRepoProvider \<Rightarrow> FetchConfig \<Rightarrow> string \<Rightarrow> (thrown + FileToDownload list) option" where
  "cli_collectFiles 0 provider config basePath = None"
| "cli_collectFiles (Suc fuel) provider config basePath =
     (case CliRepoProvider.fetchContents provider config of
        Inl err \<Rightarrow> Some (Inl err)
      | Inr contents \<Rightarrow>
          cli_forItems (\<lambda>c. cli_collectFiles fuel provider c basePath) config basePath contents [])"

definition downloadFileContent ::
  "env \<Rightarrow> CliRepoProvider \<Rightarrow> FileEntry \<Rightarrow> FetchConfig \<Rightarrow> thrown + bytes" where
  "downloadFileContent env provider f config =
     (if CliRepoProvider.name provider = ''github'' then fst (downloadGitHubFile env f config)
      else if CliRepoProvider.name provider = ''gitlab'' then fst (downloadGitLabFile env f config)
      else CliRepoProvider.downloadFile provider f (token config))"

text \<open>
  What \<^verbatim>\<open>downloadDirectory\<close> of the CLI does to the outside: a line on the console, a
  call of the progress callback, a directory made, a file written. \<^verbatim>\<open>join\<close> and
  \<^verbatim>\<open>dirname\<close> of \<^verbatim>\<open>node:path\<close> are parameters; \<^verbatim>\<open>mkdir\<close> and \<^verbatim>\<open>writeFile\<close> are taken
  to succeed.
\<close>

datatype cli_effect =
    ConsoleLog string
  | ProgressCall nat nat string
  | Mkdir string
  | WriteFile string bytes

record node_path =
  join :: "string \<Rightarrow> string \<Rightarrow> string"
  dirname :: "string \<Rightarrow> string"

fun cli_downloadLoop ::
  "env \<Rightarrow> node_path \<Rightarrow> CliRepoProvider \<Rightarrow> DownloadConfig \<Rightarrow> FileToDownload list \<Rightarrow> nat \<Rightarrow> nat \<Rightarrow>
   cli_effect list \<Rightarrow> thrown option \<times> cli_effect list" where
  "cli_downloadLoop env np provider config [] cur tot tr = (None, tr)"
| "cli_downloadLoop env np provider config (f # rest) cur tot tr =
     (let destPath = join np (outputDir config) (FileToDownload.relativePath f);
          tr1 = tr @ [ProgressCall (cur + 1) tot (FileToDownload.relativePath f),
                      Mkdir (dirname np destPath)]
      in (case downloadFileContent env provider (file_e f) (FetchConfig.truncate config) of
            Inl err \<Rightarrow> (Some err, tr1)
          | Inr data \<Rightarrow>
              cli_downloadLoop env np provider config rest (cur + 1) tot
                (tr1 @ [WriteFile destPath data])))"

definition cli_downloadDirectory ::
  "nat \<Rightarrow> env \<Rightarrow> node_path \<Rightarrow> CliRepoProvider \<Rightarrow> DownloadConfig \<Rightarrow>
   (thrown option \<times> cli_effect list) option" where
  "cli_downloadDirectory fuel env np provider config =
     (case cli_collectFiles fuel provider (FetchConfig.truncate config) (FetchConfig.path config) of
        None \<Rightarrow> None
      | Some (Inl err) \<Rightarrow> Some (Some err, [])
      | Some (Inr files) \<Rightarrow>
          (if length files = 0 then Some (None, [ConsoleLog ''No files found in directory.''])
           else Some (cli_downloadLoop env np provider config files 0 (length files) [])))"

definition cli_github :: "env \<Rightarrow> CliRepoProvider" where
  "cli_github env =
     \<lparr>CliRepoProvider.name = ''github'',
      CliRepoProvider.fetchContents = (\<lambda>config. fst (cli_github_fetchContents env config)),
      CliRepoProvider.downloadFile = (\<lambda>f tok. fst (cli_github_downloadFile env f tok))\<rparr>"

section \<open>Repository trees\<close>

text \<open>
  What a provider serves under a root: a list of nodes. A \<open>Leaf\<close> is an entry that is
  not a directory (a file, or an entry of another kind); a \<open>Folder\<close> is a directory entry
  with the nodes listed under its path. \<open>serves listing config nodes\<close> says that the
  listing function answers the configuration with exactly the entries of \<open>nodes\<close>, and
  every directory among them, asked with its own path, with its children, and so on down.
\<close>

datatype repo_node = Leaf FileEntry | Folder FileEntry "repo_node list"

fun entryOf :: "repo_node \<Rightarrow> FileEntry" where
  "entryOf (Leaf e) = e"
| "entryOf (Folder e children) = e"

fun served ::
  "(FetchConfig \<Rightarrow> thrown + FileEntry list) \<Rightarrow> FetchConfig \<Rightarrow> repo_node \<Rightarrow> bool" where
  "served listing config (Leaf e) = (type e \<noteq> ''dir'')"
| "served listing config (Folder e children) =
     (type e = ''dir'' \<and>
      listing (config\<lparr>FetchConfig.path := path e\<rparr>) = Inr (map entryOf children) \<and>
      (\<forall>c \<in> set children. served listing (config\<lparr>FetchConfig.path := path e\<rparr>) c))"

definition serves ::
  "(FetchConfig \<Rightarrow> thrown + FileEntry list) \<Rightarrow> FetchConfig \<Rightarrow> repo_node list \<Rightarrow> bool" where
  "serves listing config nodes =
     (listing config = Inr (map entryOf nodes) \<and> (\<forall>n \<in> set nodes. served listing config n))"

text \<open>
  The file entries of a tree, each node once, a directory's files where the directory
  stands in its listing; their number; and the number of listings on the longest way
  down, which is the recursion budget a traversal needs.
\<close>

fun filesOf :: "repo_node \<Rightarrow> FileEntry list" where
  "filesOf (Leaf e) = (if type e = ''file'' then [e] else [])"
| "filesOf (Folder e children) = concat (map filesOf children)"

definition allFiles :: "repo_node list \<Rightarrow> FileEntry list" where
  "allFiles nodes = concat (map filesOf nodes)"

fun fileCount :: "repo_node \<Rightarrow> nat" where
  "fileCount (Leaf e) = (if type e = ''file'' then 1 else 0)"
| "fileCount (Folder e children) = sum_list (map fileCount children)"

fun levels :: "repo_node \<Rightarrow> nat" where
  "levels (Leaf e) = 0"
| "levels (Folder e children) = Suc (foldr (\<lambda>c m. max (levels c) m) children 0)"

definition listingLevels :: "repo_node list \<Rightarrow> nat" where
  "listingLevels nodes = Suc (foldr (\<lambda>c m. max (levels c) m) nodes 0)"

text \<open>The task the CLI makes of a file entry.\<close>

definition cli_task :: "string \<Rightarrow> FileEntry \<Rightarrow> FileToDownload" where
  "cli_task basePath f = \<lparr>file_e = f, FileToDownload.relativePath = cli_relativePath basePath f\<rparr>"

section \<open>An example repository\<close>

text \<open>
  The directory \<^verbatim>\<open>root\<close> with \<^verbatim>\<open>a.txt\<close>, \<^verbatim>\<open>sub/b.txt\<close> and \<^verbatim>\<open>sub/nested/c.txt\<close>, served
  by a web provider and by a CLI provider.
\<close>

definition fileEntry :: "string \<Rightarrow> string \<Rightarrow> FileEntry" where
  "fileEntry n p =
     \<lparr>FileEntry.name = n, path = p, type = ''file'', size_f = 1, downloadUrl = None,
      sha = None, id_f = None\<rparr>"

definition dirEntry :: "string \<Rightarrow> string \<Rightarrow> FileEntry" where
  "dirEntry n p =
     \<lparr>FileEntry.name = n, path = p, type = ''dir'', size_f = 0, downloadUrl = None,
      sha = None, id_f = None\<rparr>"

definition exampleConfig :: FetchConfig where
  "exampleConfig =
     \<lparr>owner = ''o'', repo = ''r'', branch = ''main'', FetchConfig.path = ''root'', token = None\<rparr>"

definition exampleListing :: "FetchConfig \<Rightarrow> thrown + FileEntry list" where
  "exampleListing c =
     (if FetchConfig.path c = ''root'' then
        Inr [fileEntry ''a.txt'' ''root/a.txt'', dirEntry ''sub'' ''root/sub'']
      else if FetchConfig.path c = ''root/sub'' then
        Inr [fileEntry ''b.txt'' ''root/sub/b.txt'', dirEntry ''nested'' ''root/sub/nested'']
      else if FetchConfig.path c = ''root/sub/nested'' then
        Inr [fileEntry ''c.txt'' ''root/sub/nested/c.txt'']
      else Inl (DownloadErr createNotFoundError))"

definition exampleContent :: "FileEntry \<Rightarrow> thrown + bytes" where
  "exampleContent f =
     (if path f = ''root/a.txt'' then Inr [97]
      else if path f = ''root/sub/b.txt'' then Inr [98, 13, 10]
      else if path f = ''root/sub/nested/c.txt'' then Inr [99, 0, 255]
      else Inl (DownloadErr (createProviderError ''Failed to download file: 404'')))"

definition exampleProvider :: RepoProvider where
  "exampleProvider =
     \<lparr>RepoProvider.name = ''example'', fetchContents = exampleListing,
      downloadFile = (\<lambda>f c. exampleContent f)\<rparr>"

definition exampleCliProvider :: CliRepoProvider where
  "exampleCliProvider =
     \<lparr>CliRepoProvider.name = ''example'', CliRepoProvider.fetchContents = exampleListing,
      CliRepoProvider.downloadFile = (\<lambda>f tok. exampleContent f)\<rparr>"

definition exampleTree :: "repo_node list" where
  "exampleTree =
     [Leaf (fileEntry ''a.txt'' ''root/a.txt''),
      Folder (dirEntry ''sub'' ''root/sub'')
        [Leaf (fileEntry ''b.txt'' ''root/sub/b.txt''),
         Folder (dirEntry ''nested'' ''root/sub/nested'')
           [Leaf (fileEntry ''c.txt'' ''root/sub/nested/c.txt'')]]]"

section \<open>Example replies of the hosting services\<close>

text \<open>
  A GitLab server whose tree listing holds one file, \<^verbatim>\<open>big.bin\<close>, and which sends
  \<open>payload\<close> as the content of any file. \<^verbatim>\<open>encodeURIComponent\<close> leaves these names as they are.
\<close>

definition gitlabItem :: api_item where
  "gitlabItem =
     \<lparr>item_name = ''big.bin'', item_path = ''data/big.bin'', item_type = ''blob'',
      item_size = None, item_download_url = None, item_sha = None,
      item_id = Some ''1f2e3d'', item_content = None\<rparr>"

definition gitlabServer :: "bytes \<Rightarrow> env" where
  "gitlabServer payload =
     \<lparr>fetch = (\<lambda>url hs.
        Fulfilled \<lparr>status = 200, statusText = ''OK'', rateLimitRemaining = None,
                   json = JsonArray [gitlabItem], arrayBuffer = payload\<rparr>),
      encodeURIComponent = (\<lambda>s. s), atob = (\<lambda>s. None), bufferFromBase64 = (\<lambda>s. [])\<rparr>"

definition gitlabConfig :: FetchConfig where
  "gitlabConfig =
     \<lparr>owner = ''group'', repo = ''project'', branch = ''main'', FetchConfig.path = ''data'',
      token = None\<rparr>"

text \<open>A content of one byte more than the cap.\<close>

definition hugePayload :: bytes where
  "hugePayload = replicate (MAX_FILE_SIZE + 1) 0"

section \<open>The rule of the specification for relative paths\<close>

text \<open>
  The three cases as the specification words them, to compare the code with: the
  file's own name when the full path is the root path; the full path without the prefix
  when it starts with the root path and a slash; otherwise the full path, without a
  leading slash.
\<close>

definition spec_relativePath :: "string \<Rightarrow> string \<Rightarrow> string \<Rightarrow> string" where
  "spec_relativePath rootPath fullPath ownName =
     (if fullPath = rootPath then ownName
      else if prefix (rootPath @ ''/'') fullPath then drop (length (rootPath @ ''/'')) fullPath
      else stripLeadingSlash fullPath)"

text \<open>
  A single file addressed by its own path, as GitHub answers for the path of a file:
  the listing is that one entry, and its path is the root path.
\<close>

definition blobConfig :: FetchConfig where
  "blobConfig =
     \<lparr>owner = ''owner'', repo = ''repo'', branch = ''main'',
      FetchConfig.path = ''src/index.ts'', token = None\<rparr>"

definition blobItem :: api_item where
  "blobItem =
     \<lparr>item_name = ''index.ts'', item_path = ''src/index.ts'', item_type = ''file'',
      item_size = Some 3, item_download_url = Some ''https://raw.example/index.ts'',
      item_sha = Some ''abc'', item_id = None, item_content = None\<rparr>"

definition blobServer :: env where
  "blobServer =
     \<lparr>fetch = (\<lambda>url hs.
        Fulfilled \<lparr>status = 200, statusText = ''OK'', rateLimitRemaining = None,
                   json = JsonObject blobItem, arrayBuffer = [1, 2, 3]\<rparr>),
      encodeURIComponent = (\<lambda>s. s), atob = (\<lambda>s. None), bufferFromBase64 = (\<lambda>s. [])\<rparr>"

section \<open>Further example repositories\<close>

text \<open>An empty directory, for the web engine and for the CLI.\<close>

definition emptyProvider :: RepoProvider where
  "emptyProvider =
     \<lparr>RepoProvider.name = ''example'', fetchContents = (\<lambda>c. Inr []),
      downloadFile = (\<lambda>f c. exampleContent f)\<rparr>"

definition emptyCliProvider :: CliRepoProvider where
  "emptyCliProvider =
     \<lparr>CliRepoProvider.name = ''example'', CliRepoProvider.fetchContents = (\<lambda>c. Inr []),
      CliRepoProvider.downloadFile = (\<lambda>f tok. exampleContent f)\<rparr>"

definition exampleDownloadConfig :: DownloadConfig where
  "exampleDownloadConfig =
     \<lparr>owner = ''o'', repo = ''r'', branch = ''main'', FetchConfig.path = ''root'', token = None,
      outputDir = ''out''\<rparr>"

definition exampleNodePath :: node_path where
  "exampleNodePath = \<lparr>join = (\<lambda>a b. a @ ''/'' @ b), dirname = (\<lambda>p. p)\<rparr>"

text \<open>
  A GitHub directory \<^verbatim>\<open>src\<close> that holds a file and a submodule. The contents API lists
  both; the submodule has no download URL, and the raw host has nothing at its path.
\<close>

definition readmeItem :: api_item where
  "readmeItem =
     \<lparr>item_name = ''README.md'', item_path = ''src/README.md'', item_type = ''file'',
      item_size = Some 2, item_download_url = Some ''https://raw.example/README.md'',
      item_sha = Some ''11aa'', item_id = None, item_content = None\<rparr>"

definition submoduleItem :: api_item where
  "submoduleItem =
     \<lparr>item_name = ''vendor'', item_path = ''src/vendor'', item_type = ''submodule'',
      item_size = Some 0, item_download_url = None,
      item_sha = Some ''22bb'', item_id = None, item_content = None\<rparr>"

definition submoduleServer :: env where
  "submoduleServer =
     \<lparr>fetch = (\<lambda>url hs.
        if url = ''https://api.github.com/repos/o/r/contents/src?ref=main'' then
          Fulfilled \<lparr>status = 200, statusText = ''OK'', rateLimitRemaining = None,
                     json = JsonArray [readmeItem, submoduleItem], arrayBuffer = []\<rparr>
        else if url = ''https://raw.example/README.md'' then
          Fulfilled \<lparr>status = 200, statusText = ''OK'', rateLimitRemaining = None,
                     json = NotJson, arrayBuffer = [35, 10]\<rparr>
        else
          Fulfilled \<lparr>status = 404, statusText = ''Not Found'', rateLimitRemaining = None,
                     json = NotJson, arrayBuffer = []\<rparr>),
      encodeURIComponent = (\<lambda>s. s), atob = (\<lambda>s. None), bufferFromBase64 = (\<lambda>s. [])\<rparr>"

definition submoduleConfig :: FetchConfig where
  "submoduleConfig =
     \<lparr>owner = ''o'', repo = ''r'', branch = ''main'', FetchConfig.path = ''src'', token = None\<rparr>"

text \<open>The error of a rejected operation, if it has rejected.\<close>

definition rejectionOf :: "thrown + 'a \<Rightarrow> thrown option" where
  "rejectionOf r = (case r of Inl err \<Rightarrow> Some err | Inr v \<Rightarrow> None)"

section \<open>What a run does: its calls of the provider\<close>

text \<open>
  The calls of the provider in a trace of effects, without the progress calls; the
  events of one batch (every download of the batch called, then every one settled, in
  the order the network decides); and a list cut into groups of a given size.
\<close>

definition isProgress :: "effect \<Rightarrow> bool" where
  "isProgress e = (case e of OnProgress p \<Rightarrow> True | _ \<Rightarrow> False)"

definition providerEvents :: "effect list \<Rightarrow> effect list" where
  "providerEvents tr = filter (\<lambda>e. \<not> isProgress e) tr"

definition batchEvents :: "(FileEntry \<Rightarrow> nat) \<Rightarrow> FileEntry list \<Rightarrow> effect list" where
  "batchEvents latency batch =
     map DownloadFileCall batch @ map DownloadFileSettled (settleOrder latency batch)"

function chunks :: "nat \<Rightarrow> 'a list \<Rightarrow> 'a list list" where
  "chunks n xs = (if n = 0 \<or> xs = [] then [] else take n xs # chunks n (drop n xs))"
  by pat_completeness auto
termination
  by (relation "measure (\<lambda>(n, xs). length xs)") auto

declare chunks.simps [simp del]

text \<open>
  The downloads called and the downloads settled in a trace: their difference is the
  number of downloads outstanding at the end of the trace.
\<close>

definition downloadsCalled :: "effect list \<Rightarrow> nat" where
  "downloadsCalled tr =
     length (filter (\<lambda>e. case e of DownloadFileCall f \<Rightarrow> True | _ \<Rightarrow> False) tr)"

definition downloadsSettled :: "effect list \<Rightarrow> nat" where
  "downloadsSettled tr =
     length (filter (\<lambda>e. case e of DownloadFileSettled f \<Rightarrow> True | _ \<Rightarrow> False) tr)"

text \<open>
  What a traversal has done between two states: it has called \<^verbatim>\<open>fetchContents\<close> for
  some configurations, one after the other, and nothing else of the provider. If it
  has ended normally every one of these calls was fulfilled; if it has thrown, the last
  call was rejected with the error thrown and all earlier ones were fulfilled.
\<close>

definition walked :: "RepoProvider \<Rightarrow> walk_state \<Rightarrow> thrown option \<Rightarrow> walk_state \<Rightarrow> bool" where
  "walked provider st r st' =
     (\<exists>cs. providerEvents (effects st') = providerEvents (effects st) @ map FetchContentsCall cs \<and>
           (case r of
              None \<Rightarrow> (\<forall>c \<in> set cs. \<not> isl (fetchContents provider c))
            | Some err \<Rightarrow>
                cs \<noteq> [] \<and> fetchContents provider (last cs) = Inl err \<and>
                (\<forall>c \<in> set (butlast cs). \<not> isl (fetchContents provider c))))"

text \<open>
  What the loop over the batches has done between two states, with \<open>rest\<close> the files
  not yet downloaded at its start: it has dispatched some of the groups of \<open>rest\<close>, from
  the first on. If it has ended normally it has dispatched all of them and has added one
  result for every file of \<open>rest\<close>, in order; if it has thrown, a download of a
  dispatched group was rejected with the error thrown.
\<close>

definition batched ::
  "RepoProvider \<Rightarrow> FetchConfig \<Rightarrow> (FileEntry \<Rightarrow> nat) \<Rightarrow> FileEntry list \<Rightarrow>
   download_state \<Rightarrow> thrown option \<Rightarrow> download_state \<Rightarrow> bool" where
  "batched provider config latency rest st r st' =
     (\<exists>bs. prefix bs (chunks CONCURRENT_DOWNLOADS rest) \<and>
           providerEvents (trace st') =
             providerEvents (trace st) @ concat (map (batchEvents latency) bs) \<and>
           (case r of
              None \<Rightarrow>
                bs = chunks CONCURRENT_DOWNLOADS rest \<and>
                (\<exists>rs. results st' = results st @ rs \<and>
                      map Inr rs = map (downloadOne provider config) rest)
            | Some err \<Rightarrow>
                (\<exists>f \<in> set (concat bs). downloadFile provider f config = Inl err)))"

text \<open>
  The entries of the archive written after \<^verbatim>\<open>zip.file\<close> has been called for each result in
  turn.
\<close>

definition archiveOf :: "FileWithContent list \<Rightarrow> zip_files" where
  "archiveOf rs =
     generateAsync (foldl (\<lambda>archive f. zip_file (relativePath f) (content f) archive) Map.empty rs)"

section \<open>A run on the example repository\<close>

text \<open>
  The network delivers \<^verbatim>\<open>a.txt\<close> last. The effects of the whole run, in order: the
  traversal, the one batch of three downloads, the archive.
\<close>

definition exampleLatency :: "FileEntry \<Rightarrow> nat" where
  "exampleLatency f = (if path f = ''root/a.txt'' then 2 else 1)"

definition exampleFiles :: "FileEntry list" where
  "exampleFiles =
     [fileEntry ''a.txt'' ''root/a.txt'', fileEntry ''b.txt'' ''root/sub/b.txt'',
      fileEntry ''c.txt'' ''root/sub/nested/c.txt'']"

definition exampleWalkLog :: "effect list" where
  "exampleWalkLog =
     [OnProgress \<lparr>phase = fetching, current = 0, total = 0, currentFile = None\<rparr>,
      FetchContentsCall exampleConfig,
      OnProgress \<lparr>phase = fetching, current = 1, total = 1, currentFile = None\<rparr>,
      FetchContentsCall (exampleConfig\<lparr>FetchConfig.path := ''root/sub''\<rparr>),
      OnProgress \<lparr>phase = fetching, current = 2, total = 2, currentFile = None\<rparr>,
      FetchContentsCall (exampleConfig\<lparr>FetchConfig.path := ''root/sub/nested''\<rparr>),
      OnProgress \<lparr>phase = fetching, current = 3, total = 3, currentFile = None\<rparr>,
      OnProgress \<lparr>phase = fetching, current = 3, total = 3, currentFile = None\<rparr>,
      OnProgress \<lparr>phase = fetching, current = 3, total = 3, currentFile = None\<rparr>]"

definition exampleCallsLog :: "effect list" where
  "exampleCallsLog =
     [OnProgress \<lparr>phase = downloading, current = 0, total = 3, currentFile = Some ''a.txt''\<rparr>,
      DownloadFileCall (fileEntry ''a.txt'' ''root/a.txt''),
      OnProgress \<lparr>phase = downloading, current = 0, total = 3, currentFile = Some ''b.txt''\<rparr>,
      DownloadFileCall (fileEntry ''b.txt'' ''root/sub/b.txt''),
      OnProgress \<lparr>phase = downloading, current = 0, total = 3, currentFile = Some ''c.txt''\<rparr>,
      DownloadFileCall (fileEntry ''c.txt'' ''root/sub/nested/c.txt'')]"

definition exampleSettledLog :: "effect list" where
  "exampleSettledLog =
     [DownloadFileSettled (fileEntry ''b.txt'' ''root/sub/b.txt''),
      DownloadFileSettled (fileEntry ''c.txt'' ''root/sub/nested/c.txt''),
      DownloadFileSettled (fileEntry ''a.txt'' ''root/a.txt'')]"

definition exampleZipLog :: "effect list" where
  "exampleZipLog =
     [OnProgress \<lparr>phase = zipping, current = 0, total = 3, currentFile = None\<rparr>,
      OnProgress \<lparr>phase = zipping, current = 1, total = 3, currentFile = Some ''a.txt''\<rparr>,
      OnProgress \<lparr>phase = zipping, current = 2, total = 3, currentFile = Some ''sub/b.txt''\<rparr>,
      OnProgress \<lparr>phase = zipping, current = 3, total = 3,
                  currentFile = Some ''sub/nested/c.txt''\<rparr>]"

definition exampleResults :: "FileWithContent list" where
  "exampleResults =
     [\<lparr>relativePath = ''a.txt'', content = [97]\<rparr>,
      \<lparr>relativePath = ''sub/b.txt'', content = [98, 13, 10]\<rparr>,
      \<lparr>relativePath = ''sub/nested/c.txt'', content = [99, 0, 255]\<rparr>]"

section \<open>Providers whose paths are not well formed\<close>

text \<open>
  A listing with two files of different paths that differ by a doubled slash: both have
  the relative path \<^verbatim>\<open>a.txt\<close>.
\<close>

definition collidingProvider :: RepoProvider where
  "collidingProvider =
     \<lparr>RepoProvider.name = ''example'',
      fetchContents =
        (\<lambda>c. Inr [fileEntry ''a.txt'' ''root/a.txt'', fileEntry ''a.txt'' ''root//a.txt'']),
      downloadFile = (\<lambda>f c. if path f = ''root/a.txt'' then Inr [1] else Inr [2])\<rparr>"

text \<open>
  A file is under the root when its path is the root path, a slash, and a rest that is
  not empty and does not begin with a slash; with an empty root path, when its path is
  such a rest. \<open>restOf\<close> is that rest.
\<close>

definition restOf :: "string \<Rightarrow> FileEntry \<Rightarrow> string" where
  "restOf root f = (if root = [] then path f else drop (length root + 1) (path f))"

definition underRoot :: "string \<Rightarrow> FileEntry \<Rightarrow> bool" where
  "underRoot root f =
     ((root = [] \<or> prefix (root @ ''/'') (path f)) \<and>
      restOf root f \<noteq> [] \<and> \<not> prefix ''/'' (restOf root f))"

section \<open>Nesting depth and further examples\<close>

text \<open>
  A GitHub server whose contents listing holds one file, \<^verbatim>\<open>big.bin\<close>, reported with a
  size of one byte more than the cap.
\<close>

definition bigItem :: api_item where
  "bigItem =
     \<lparr>item_name = ''big.bin'', item_path = ''data/big.bin'', item_type = ''file'',
      item_size = Some 104857601, item_download_url = Some ''https://raw.example/big.bin'',
      item_sha = Some ''9c0d'', item_id = None, item_content = None\<rparr>"

definition bigServer :: env where
  "bigServer =
     \<lparr>fetch = (\<lambda>url hs.
        Fulfilled \<lparr>status = 200, statusText = ''OK'', rateLimitRemaining = None,
                   json = JsonArray [bigItem], arrayBuffer = [1, 2, 3]\<rparr>),
      encodeURIComponent = (\<lambda>s. s), atob = (\<lambda>s. None), bufferFromBase64 = (\<lambda>s. [])\<rparr>"

text \<open>
  The directories a provider lists under a configuration are nested at most \<open>n\<close> deep:
  the listing of the configuration is rejected, or it is fulfilled and every directory in
  it is nested at most \<open>n - 1\<close> deep. This is a property of the repository as the
  provider shows it, whatever the listings hold besides directories.
\<close>

primrec nestingWithin ::
  "nat \<Rightarrow> (FetchConfig \<Rightarrow> thrown + FileEntry list) \<Rightarrow> FetchConfig \<Rightarrow> bool" where
  "nestingWithin 0 listing config = False"
| "nestingWithin (Suc n) listing config =
     (case listing config of
        Inl err \<Rightarrow> True
      | Inr entries \<Rightarrow>
          list_all (\<lambda>e. type e = ''dir'' \<longrightarrow>
                         nestingWithin n listing (config\<lparr>FetchConfig.path := path e\<rparr>)) entries)"



text \<open>The effects of the run on the two files of one relative path, in order.\<close>

definition collidingLog :: "effect list" where
  "collidingLog =
     [OnProgress \<lparr>phase = fetching, current = 0, total = 0, currentFile = None\<rparr>,
      FetchContentsCall exampleConfig,
      OnProgress \<lparr>phase = fetching, current = 1, total = 1, currentFile = None\<rparr>,
      OnProgress \<lparr>phase = fetching, current = 2, total = 2, currentFile = None\<rparr>,
      OnProgress \<lparr>phase = downloading, current = 0, total = 2, currentFile = Some ''a.txt''\<rparr>,
      DownloadFileCall (fileEntry ''a.txt'' ''root/a.txt''),
      OnProgress \<lparr>phase = downloading, current = 0, total = 2, currentFile = Some ''a.txt''\<rparr>,
      DownloadFileCall (fileEntry ''a.txt'' ''root//a.txt''),
      DownloadFileSettled (fileEntry ''a.txt'' ''root//a.txt''),
      DownloadFileSettled (fileEntry ''a.txt'' ''root/a.txt''),
      OnProgress \<lparr>phase = zipping, current = 0, total = 2, currentFile = None\<rparr>,
      OnProgress \<lparr>phase = zipping, current = 1, total = 2, currentFile = Some ''a.txt''\<rparr>,
      OnProgress \<lparr>phase = zipping, current = 2, total = 2, currentFile = Some ''a.txt''\<rparr>]"

section \<open>Properties\<close>

subsection \<open>Traversal of a repository tree\<close>

lemma levels_le_foldr:
  "n \<in> set nodes \<Longrightarrow> levels n \<le> foldr (\<lambda>c m. max (levels c) m) nodes 0"
  by (induction nodes) auto

lemma length_filesOf: "length (filesOf n) = fileCount n"
proof (induction n)
  case (Leaf e)
  then show ?case by simp
next
  case (Folder e children)
  have "sum_list (map (\<lambda>c. length (filesOf c)) children) = sum_list (map fileCount children)"
    using Folder.IH by (induction children) auto
  then show ?case by (simp add: length_concat comp_def)
qed

lemma length_allFiles: "length (allFiles nodes) = sum_list (map fileCount nodes)"
  by (simp add: allFiles_def length_concat length_filesOf comp_def)

text \<open>
  The loop over a listing that is the listing of \<open>nodes\<close>, when the recursive call does
  on every directory of the listing what is claimed of the whole traversal.
\<close>

lemma forEntries_tree:
  assumes rec: "\<And>e children s. Folder e children \<in> set nodes \<Longrightarrow>
      \<exists>s'. recurse (config\<lparr>FetchConfig.path := path e\<rparr>) s = Some (None, s') \<and>
           collectedFiles s' = collectedFiles s @ allFiles children"
    and srv: "\<forall>n \<in> set nodes. served listing config n"
  shows "\<exists>st'. forEntries recurse config (map entryOf nodes) st = Some (None, st') \<and>
           collectedFiles st' = collectedFiles st @ allFiles nodes"
  using assms
proof (induction nodes arbitrary: st)
  case Nil
  then show ?case by (simp add: allFiles_def)
next
  case (Cons n nodes)
  have tl: "\<And>s. \<exists>st'. forEntries recurse config (map entryOf nodes) s = Some (None, st') \<and>
           collectedFiles st' = collectedFiles s @ allFiles nodes"
    using Cons.IH Cons.prems by simp
  show ?case
  proof (cases n)
    case (Leaf e)
    with Cons.prems(2) have nd: "type e \<noteq> ''dir''" by simp
    show ?thesis
    proof (cases "type e = ''file''")
      case True
      from tl[of "reportFetching (st\<lparr>collectedFiles := collectedFiles st @ [e]\<rparr>)"]
      show ?thesis using Leaf True by (auto simp: allFiles_def reportFetching_def)
    next
      case False
      from tl[of "reportFetching st"]
      show ?thesis using Leaf False nd by (auto simp: allFiles_def reportFetching_def)
    qed
  next
    case (Folder e children)
    with Cons.prems(2) have d: "type e = ''dir''" by simp
    from Cons.prems(1)[of e children st] Folder obtain s' where
      s': "recurse (config\<lparr>FetchConfig.path := path e\<rparr>) st = Some (None, s')"
          "collectedFiles s' = collectedFiles st @ allFiles children" by auto
    from tl[of "reportFetching s'"] obtain st' where
      st': "forEntries recurse config (map entryOf nodes) (reportFetching s') = Some (None, st')"
           "collectedFiles st' = collectedFiles (reportFetching s') @ allFiles nodes" by blast
    show ?thesis using Folder d s' st' by (simp add: allFiles_def reportFetching_def)
  qed
qed

lemma collectFilesRecursively_tree:
  "serves (fetchContents provider) config nodes \<Longrightarrow> listingLevels nodes \<le> fuel \<Longrightarrow>
   \<exists>st'. collectFilesRecursively fuel provider config basePath st = Some (None, st') \<and>
         collectedFiles st' = collectedFiles st @ allFiles nodes"
proof (induction fuel arbitrary: config nodes st)
  case 0
  then show ?case by (simp add: listingLevels_def)
next
  case (Suc fuel)
  let ?st1 = "st\<lparr>effects := effects st @ [FetchContentsCall config]\<rparr>"
  from Suc.prems(1) have l: "fetchContents provider config = Inr (map entryOf nodes)"
    and srv: "\<forall>n \<in> set nodes. served (fetchContents provider) config n"
    by (simp_all add: serves_def)
  have rec: "\<exists>s'. collectFilesRecursively fuel provider (config\<lparr>FetchConfig.path := path e\<rparr>)
                    basePath s = Some (None, s') \<and>
                  collectedFiles s' = collectedFiles s @ allFiles children"
    if "Folder e children \<in> set nodes" for e children s
  proof -
    from that srv have "served (fetchContents provider) config (Folder e children)" by blast
    then have "serves (fetchContents provider) (config\<lparr>FetchConfig.path := path e\<rparr>) children"
      by (simp add: serves_def)
    moreover have "levels (Folder e children) \<le> fuel"
      using levels_le_foldr[OF that] Suc.prems(2) by (simp add: listingLevels_def)
    then have "listingLevels children \<le> fuel" by (simp add: listingLevels_def)
    ultimately show ?thesis using Suc.IH by blast
  qed
  from forEntries_tree[of nodes "\<lambda>c s. collectFilesRecursively fuel provider c basePath s" config
      "fetchContents provider" ?st1, OF rec srv]
  show ?case using l by simp
qed

lemma cli_forItems_tree:
  assumes rec: "\<And>e children. Folder e children \<in> set nodes \<Longrightarrow>
      recurse (config\<lparr>FetchConfig.path := path e\<rparr>) =
        Some (Inr (map (cli_task basePath) (allFiles children)))"
    and srv: "\<forall>n \<in> set nodes. served listing config n"
  shows "cli_forItems recurse config basePath (map entryOf nodes) files =
           Some (Inr (files @ map (cli_task basePath) (allFiles nodes)))"
  using assms
proof (induction nodes arbitrary: files)
  case Nil
  then show ?case by (simp add: allFiles_def)
next
  case (Cons n nodes)
  have tl: "\<And>fs. cli_forItems recurse config basePath (map entryOf nodes) fs =
           Some (Inr (fs @ map (cli_task basePath) (allFiles nodes)))"
    using Cons.IH Cons.prems by simp
  show ?case
  proof (cases n)
    case (Leaf e)
    with Cons.prems(2) have "type e \<noteq> ''dir''" by simp
    then show ?thesis using Leaf tl by (simp add: allFiles_def cli_task_def)
  next
    case (Folder e children)
    with Cons.prems(2) have d: "type e = ''dir''" by simp
    from Cons.prems(1)[of e children] Folder
    have "recurse (config\<lparr>FetchConfig.path := path e\<rparr>) =
            Some (Inr (map (cli_task basePath) (allFiles children)))"
      by simp
    then show ?thesis using Folder d tl by (simp add: allFiles_def)
  qed
qed

lemma cli_collectFiles_tree:
  "serves (CliRepoProvider.fetchContents provider) config nodes \<Longrightarrow>
   listingLevels nodes \<le> fuel \<Longrightarrow>
   cli_collectFiles fuel provider config basePath =
     Some (Inr (map (cli_task basePath) (allFiles nodes)))"
proof (induction fuel arbitrary: config nodes)
  case 0
  then show ?case by (simp add: listingLevels_def)
next
  case (Suc fuel)
  from Suc.prems(1)
  have l: "CliRepoProvider.fetchContents provider config = Inr (map entryOf nodes)"
    and srv: "\<forall>n \<in> set nodes. served (CliRepoProvider.fetchContents provider) config n"
    by (simp_all add: serves_def)
  have rec: "cli_collectFiles fuel provider (config\<lparr>FetchConfig.path := path e\<rparr>) basePath
                 = Some (Inr (map (cli_task basePath) (allFiles children)))"
    if "Folder e children \<in> set nodes" for e children
  proof -
    from that srv
    have "served (CliRepoProvider.fetchContents provider) config (Folder e children)" by blast
    then have "serves (CliRepoProvider.fetchContents provider)
                 (config\<lparr>FetchConfig.path := path e\<rparr>) children"
      by (simp add: serves_def)
    moreover have "levels (Folder e children) \<le> fuel"
      using levels_le_foldr[OF that] Suc.prems(2) by (simp add: listingLevels_def)
    then have "listingLevels children \<le> fuel" by (simp add: listingLevels_def)
    ultimately show ?thesis using Suc.IH by blast
  qed
  from cli_forItems_tree[of nodes "\<lambda>c. cli_collectFiles fuel provider c basePath" config basePath
      "CliRepoProvider.fetchContents provider" "[]", OF rec srv]
  show ?case using l by simp
qed

lemma exampleTree_served: "serves exampleListing exampleConfig exampleTree"
  by (simp add: serves_def exampleListing_def exampleConfig_def exampleTree_def
      fileEntry_def dirEntry_def)

lemma exampleTree_levels: "listingLevels exampleTree = 3"
  by (simp add: listingLevels_def exampleTree_def)

lemma exampleTree_files:
  "allFiles exampleTree =
     [fileEntry ''a.txt'' ''root/a.txt'', fileEntry ''b.txt'' ''root/sub/b.txt'',
      fileEntry ''c.txt'' ''root/sub/nested/c.txt'']"
  by (simp add: allFiles_def exampleTree_def fileEntry_def)

text \<open>
  C2. For every repository tree with N file entries under the root, at any depth, the
  recursive collection of the web engine and of the CLI returns exactly these N
  entries: it ends (with a recursion budget of the tree's depth), without an error, and
  what it has collected is the list of the tree's file entries, each tree node once, no
  other entry and none twice; every directory has been listed.
\<close>

theorem traversal_collects_every_file_once:
  assumes "listingLevels nodes \<le> fuel"
  shows "(serves (fetchContents provider) config nodes \<longrightarrow>
            (\<exists>st'. collectFilesRecursively fuel provider config basePath st = Some (None, st') \<and>
                   collectedFiles st' = collectedFiles st @ allFiles nodes)) \<and>
         (serves (CliRepoProvider.fetchContents cliProvider) config nodes \<longrightarrow>
            (\<exists>tasks. cli_collectFiles fuel cliProvider config basePath = Some (Inr tasks) \<and>
                     map file_e tasks = allFiles nodes)) \<and>
         length (allFiles nodes) = sum_list (map fileCount nodes)"
proof (intro conjI impI)
  assume "serves (fetchContents provider) config nodes"
  then show "\<exists>st'. collectFilesRecursively fuel provider config basePath st = Some (None, st') \<and>
                   collectedFiles st' = collectedFiles st @ allFiles nodes"
    using assms by (rule collectFilesRecursively_tree)
next
  assume "serves (CliRepoProvider.fetchContents cliProvider) config nodes"
  then have "cli_collectFiles fuel cliProvider config basePath =
               Some (Inr (map (cli_task basePath) (allFiles nodes)))"
    using assms by (rule cli_collectFiles_tree)
  moreover have "map file_e (map (cli_task basePath) (allFiles nodes)) = allFiles nodes"
    by (simp add: cli_task_def comp_def)
  ultimately show "\<exists>tasks. cli_collectFiles fuel cliProvider config basePath = Some (Inr tasks) \<and>
                     map file_e tasks = allFiles nodes"
    by blast
next
  show "length (allFiles nodes) = sum_list (map fileCount nodes)"
    by (rule length_allFiles)
qed

theorem traversal_collects_every_file_once_witness:
  "listingLevels exampleTree \<le> 3 \<and>
   serves (fetchContents exampleProvider) exampleConfig exampleTree \<and>
   serves (CliRepoProvider.fetchContents exampleCliProvider) exampleConfig exampleTree \<and>
   (\<exists>st'. collectFilesRecursively 3 exampleProvider exampleConfig ''root'' initialWalk
             = Some (None, st') \<and>
          collectedFiles st' =
            [fileEntry ''a.txt'' ''root/a.txt'', fileEntry ''b.txt'' ''root/sub/b.txt'',
             fileEntry ''c.txt'' ''root/sub/nested/c.txt'']) \<and>
   (\<exists>tasks. cli_collectFiles 3 exampleCliProvider exampleConfig ''root'' = Some (Inr tasks) \<and>
            map file_e tasks =
              [fileEntry ''a.txt'' ''root/a.txt'', fileEntry ''b.txt'' ''root/sub/b.txt'',
               fileEntry ''c.txt'' ''root/sub/nested/c.txt'']) \<and>
   sum_list (map fileCount exampleTree) = 3"
proof -
  have lv: "listingLevels exampleTree \<le> 3" by (simp add: exampleTree_levels)
  have w: "serves (fetchContents exampleProvider) exampleConfig exampleTree"
    by (simp add: exampleProvider_def exampleTree_served)
  have c: "serves (CliRepoProvider.fetchContents exampleCliProvider) exampleConfig exampleTree"
    by (simp add: exampleCliProvider_def exampleTree_served)
  have n: "sum_list (map fileCount exampleTree) = 3"
    by (simp add: exampleTree_def fileEntry_def)
  from traversal_collects_every_file_once[OF lv, where provider = exampleProvider
      and config = exampleConfig and basePath = "''root''" and st = initialWalk
      and cliProvider = exampleCliProvider] w c lv n
  show ?thesis by (simp add: initialWalk_def exampleTree_files)
qed

subsection \<open>GitLab entries carry no size\<close>

lemma gitlab_toEntry_size: "e \<in> set (map gitlab_toEntry items) \<Longrightarrow> size_f e = 0"
  by (auto simp: gitlab_toEntry_def)

lemma gitlab_fetchContents_size:
  "fst (gitlab_fetchContents env config) = Inr entries \<Longrightarrow> e \<in> set entries \<Longrightarrow> size_f e = 0"
  by (auto simp: gitlab_fetchContents_def Let_def gitlab_toEntry_def
      split: sum.splits if_splits json.splits)

lemma cli_gitlab_fetchContents_size:
  "cli_gitlab_fetchContents fuel env config = Some (Inr entries, reqs) \<Longrightarrow> e \<in> set entries \<Longrightarrow>
   size_f e = 0"
  by (auto simp: cli_gitlab_fetchContents_def gitlab_toEntry_def
      split: option.splits sum.splits prod.splits)

lemma gitlab_downloadFile_small:
  "size_f file \<le> MAX_FILE_SIZE \<Longrightarrow>
   fst (gitlab_downloadFile env file config) = Inl (DownloadErr err) \<Longrightarrow> code err \<noteq> FILE_TOO_LARGE"
  by (auto simp: gitlab_downloadFile_def Let_def webFetch_def createNetworkError_def
      createProviderError_def split: fetch_outcome.splits if_splits)

text \<open>
  C10. Every entry that \<^verbatim>\<open>fetchContents\<close> of the GitLab adapter returns, in the web
  adapter and in the CLI, has size 0. For such an entry the size check of the web
  adapter's \<^verbatim>\<open>downloadFile\<close> never fires: whatever the server sends, of whatever length,
  the result is not a \<^verbatim>\<open>FILE_TOO_LARGE\<close> error, and a reply with status 2xx is returned
  as the content.
\<close>

theorem gitlab_size_cap_unreachable:
  assumes "fst (gitlab_fetchContents env config) = Inr entries \<or>
           cli_gitlab_fetchContents fuel env config = Some (Inr entries, reqs)"
    and "file \<in> set entries"
  shows "size_f file = 0 \<and>
         \<not> (\<exists>err. fst (gitlab_downloadFile env' file config') = Inl (DownloadErr err) \<and>
                  code err = FILE_TOO_LARGE) \<and>
         (\<forall>r. fetch env' (GITLAB_API @ ''/projects/'' @
                    encodeProjectId env' (owner config') (repo config') @
                    ''/repository/files/'' @ encodeURIComponent env' (path file) @
                    ''/raw?ref='' @ branch config')
                  (gitlab_getHeaders (token config')) = Fulfilled r \<and> ok r \<longrightarrow>
              fst (gitlab_downloadFile env' file config') = Inr (arrayBuffer r))"
proof -
  from assms have z: "size_f file = 0"
    using gitlab_fetchContents_size cli_gitlab_fetchContents_size by blast
  then have "size_f file \<le> MAX_FILE_SIZE" by simp
  then have "\<not> (\<exists>err. fst (gitlab_downloadFile env' file config') = Inl (DownloadErr err) \<and>
                  code err = FILE_TOO_LARGE)"
    using gitlab_downloadFile_small by blast
  moreover have "\<forall>r. fetch env' (GITLAB_API @ ''/projects/'' @
                    encodeProjectId env' (owner config') (repo config') @
                    ''/repository/files/'' @ encodeURIComponent env' (path file) @
                    ''/raw?ref='' @ branch config')
                  (gitlab_getHeaders (token config')) = Fulfilled r \<and> ok r \<longrightarrow>
              fst (gitlab_downloadFile env' file config') = Inr (arrayBuffer r)"
    using z by (simp add: gitlab_downloadFile_def Let_def webFetch_def MAX_FILE_SIZE_def)
  ultimately show ?thesis using z by blast
qed

theorem gitlab_size_cap_unreachable_witness:
  "fst (gitlab_fetchContents (gitlabServer hugePayload) gitlabConfig) =
     Inr [gitlab_toEntry gitlabItem] \<and>
   cli_gitlab_fetchContents 1 (gitlabServer hugePayload) gitlabConfig =
     Some (Inr [gitlab_toEntry gitlabItem],
           [(''https://gitlab.com/api/v4/projects/group/project/repository/tree?path=data&ref=main&per_page=100&page=1'',
             [(''User-Agent'', ''ghdir-cli'')])]) \<and>
   size_f (gitlab_toEntry gitlabItem) = 0 \<and>
   length hugePayload > MAX_FILE_SIZE \<and>
   fst (gitlab_downloadFile (gitlabServer hugePayload) (gitlab_toEntry gitlabItem) gitlabConfig) =
     Inr hugePayload"
proof -
  have web: "fst (gitlab_fetchContents (gitlabServer hugePayload) gitlabConfig) =
               Inr [gitlab_toEntry gitlabItem]"
    by (simp add: gitlab_fetchContents_def gitlabServer_def webFetch_def ok_def Let_def)
  have n100: "numberToString 100 = ''100''" and n1: "numberToString (Suc 0) = ''1''"
    by (simp_all add: numberToString.simps)
  have cli: "cli_gitlab_fetchContents 1 (gitlabServer hugePayload) gitlabConfig =
     Some (Inr [gitlab_toEntry gitlabItem],
           [(''https://gitlab.com/api/v4/projects/group/project/repository/tree?path=data&ref=main&per_page=100&page=1'',
             [(''User-Agent'', ''ghdir-cli'')])])"
    by (simp add: cli_gitlab_fetchContents_def gitlabServer_def cliFetch_def ok_def Let_def
        encodeProjectId_def gitlabConfig_def API_BASE_gitlab_def cli_gitlab_getHeaders_def n100 n1)
  have len: "length hugePayload > MAX_FILE_SIZE"
    by (simp add: hugePayload_def)
  have mem: "gitlab_toEntry gitlabItem \<in> set [gitlab_toEntry gitlabItem]" by simp
  from gitlab_size_cap_unreachable[OF disjI1, OF web mem,
      where env' = "gitlabServer hugePayload" and config' = gitlabConfig]
  have "size_f (gitlab_toEntry gitlabItem) = 0"
    and "fst (gitlab_downloadFile (gitlabServer hugePayload) (gitlab_toEntry gitlabItem)
               gitlabConfig) = Inr hugePayload"
    by (simp_all add: gitlabServer_def ok_def)
  with web cli len show ?thesis by simp
qed

subsection \<open>The size cap of the web adapters\<close>

lemma github_fetchContents_entries:
  "fst (github_fetchContents env config) = Inr entries \<Longrightarrow>
   \<exists>items. entries = map github_toEntry items"
proof -
  have one: "\<exists>items. [github_toEntry a] = map github_toEntry items" for a
    by (rule exI[of _ "[a]"]) simp
  assume "fst (github_fetchContents env config) = Inr entries"
  then show ?thesis
    by (auto simp: github_fetchContents_def Let_def one split: sum.splits if_splits json.splits)
qed

lemma gitlab_downloadFile_request:
  "size_f file \<le> MAX_FILE_SIZE \<Longrightarrow>
   snd (gitlab_downloadFile env file config) =
     [(GITLAB_API @ ''/projects/'' @ encodeProjectId env (owner config) (repo config) @
       ''/repository/files/'' @ encodeURIComponent env (path file) @ ''/raw?ref='' @ branch config,
       gitlab_getHeaders (token config))]"
  by (simp add: gitlab_downloadFile_def Let_def)

text \<open>
  C7, as the code has it. \<^verbatim>\<open>downloadFile\<close> of the web adapters for GitHub and GitLab
  compares the size the file entry carries with the cap of 100MB: for an entry whose
  size is above the cap it rejects with the \<^verbatim>\<open>FILE_TOO_LARGE\<close> error that names the file,
  and has sent no request. The entries the GitHub adapter discovers carry the size the
  contents API reports (0 when it reports none), so a GitHub file reported above the cap
  is rejected before any transfer. The entries the GitLab adapter discovers all carry
  the size 0: for them the check does not reject, and the request for the content is sent.
\<close>

theorem oversized_file_rejected_before_transfer:
  "(size_f file > MAX_FILE_SIZE \<longrightarrow>
      github_downloadFile env file config =
        (Inl (DownloadErr (createFileTooLargeError (FileEntry.name file))), []) \<and>
      gitlab_downloadFile env file config =
        (Inl (DownloadErr (createFileTooLargeError (FileEntry.name file))), []) \<and>
      downloadFile (github env) file config =
        Inl (DownloadErr (createFileTooLargeError (FileEntry.name file))) \<and>
      downloadFile (gitlab env) file config =
        Inl (DownloadErr (createFileTooLargeError (FileEntry.name file)))) \<and>
   code (createFileTooLargeError (FileEntry.name file)) = FILE_TOO_LARGE \<and>
   MAX_FILE_SIZE = 104857600 \<and>
   (fst (github_fetchContents env config) = Inr entries \<longrightarrow>
      (\<exists>items. entries = map github_toEntry items)) \<and>
   size_f (github_toEntry item) = (case item_size item of None \<Rightarrow> 0 | Some n \<Rightarrow> n) \<and>
   FileEntry.name (github_toEntry item) = item_name item \<and>
   (\<forall>n. item_size item = Some n \<and> n > MAX_FILE_SIZE \<longrightarrow>
      github_downloadFile env (github_toEntry item) config =
        (Inl (DownloadErr (createFileTooLargeError (item_name item))), [])) \<and>
   (\<forall>found e. fst (gitlab_fetchContents env config) = Inr found \<and> e \<in> set found \<longrightarrow>
      size_f e = 0 \<and>
      fst (gitlab_downloadFile env' e config') \<noteq>
        Inl (DownloadErr (createFileTooLargeError (FileEntry.name e))) \<and>
      snd (gitlab_downloadFile env' e config') =
        [(GITLAB_API @ ''/projects/'' @ encodeProjectId env' (owner config') (repo config') @
          ''/repository/files/'' @ encodeURIComponent env' (path e) @ ''/raw?ref='' @
          branch config',
          gitlab_getHeaders (token config'))])"
proof (intro conjI allI impI)
  assume "size_f file > MAX_FILE_SIZE"
  then show "github_downloadFile env file config =
        (Inl (DownloadErr (createFileTooLargeError (FileEntry.name file))), [])"
    and "gitlab_downloadFile env file config =
        (Inl (DownloadErr (createFileTooLargeError (FileEntry.name file))), [])"
    and "downloadFile (github env) file config =
        Inl (DownloadErr (createFileTooLargeError (FileEntry.name file)))"
    and "downloadFile (gitlab env) file config =
        Inl (DownloadErr (createFileTooLargeError (FileEntry.name file)))"
    by (simp_all add: github_downloadFile_def gitlab_downloadFile_def github_def gitlab_def)
next
  show "code (createFileTooLargeError (FileEntry.name file)) = FILE_TOO_LARGE"
    by (simp add: createFileTooLargeError_def)
next
  show "MAX_FILE_SIZE = 104857600" by (simp add: MAX_FILE_SIZE_def)
next
  assume "fst (github_fetchContents env config) = Inr entries"
  then show "\<exists>items. entries = map github_toEntry items"
    by (rule github_fetchContents_entries)
next
  show "size_f (github_toEntry item) = (case item_size item of None \<Rightarrow> 0 | Some n \<Rightarrow> n)"
    by (simp add: github_toEntry_def)
next
  show "FileEntry.name (github_toEntry item) = item_name item"
    by (simp add: github_toEntry_def)
next
  fix n assume "item_size item = Some n \<and> n > MAX_FILE_SIZE"
  then show "github_downloadFile env (github_toEntry item) config =
        (Inl (DownloadErr (createFileTooLargeError (item_name item))), [])"
    by (simp add: github_downloadFile_def github_toEntry_def)
next
  fix found e assume a: "fst (gitlab_fetchContents env config) = Inr found \<and> e \<in> set found"
  then show z: "size_f e = 0" using gitlab_fetchContents_size by blast
  then have small: "size_f e \<le> MAX_FILE_SIZE" by simp
  have "code (createFileTooLargeError (FileEntry.name e)) = FILE_TOO_LARGE"
    by (simp add: createFileTooLargeError_def)
  with gitlab_downloadFile_small[OF small, of env' config']
  show "fst (gitlab_downloadFile env' e config') \<noteq>
          Inl (DownloadErr (createFileTooLargeError (FileEntry.name e)))"
    by blast
  from gitlab_downloadFile_request[OF small]
  show "snd (gitlab_downloadFile env' e config') =
        [(GITLAB_API @ ''/projects/'' @ encodeProjectId env' (owner config') (repo config') @
          ''/repository/files/'' @ encodeURIComponent env' (path e) @ ''/raw?ref='' @
          branch config',
          gitlab_getHeaders (token config'))]" .
qed

lemma big_listing:
  "fst (github_fetchContents bigServer gitlabConfig) = Inr [github_toEntry bigItem]"
  by (simp add: github_fetchContents_def bigServer_def webFetch_def ok_def Let_def)

lemma huge_listing:
  "fst (gitlab_fetchContents (gitlabServer hugePayload) gitlabConfig) =
     Inr [gitlab_toEntry gitlabItem]"
  by (simp add: gitlab_fetchContents_def gitlabServer_def webFetch_def ok_def Let_def)

theorem oversized_file_rejected_before_transfer_witness:
  "fst (github_fetchContents bigServer gitlabConfig) = Inr [github_toEntry bigItem] \<and>
   item_size bigItem = Some 104857601 \<and>
   size_f (github_toEntry bigItem) > MAX_FILE_SIZE \<and>
   github_downloadFile bigServer (github_toEntry bigItem) gitlabConfig =
     (Inl (DownloadErr (createFileTooLargeError ''big.bin'')), []) \<and>
   fst (gitlab_fetchContents (gitlabServer hugePayload) gitlabConfig) =
     Inr [gitlab_toEntry gitlabItem] \<and>
   size_f (gitlab_toEntry gitlabItem) = 0 \<and>
   snd (gitlab_downloadFile (gitlabServer hugePayload) (gitlab_toEntry gitlabItem) gitlabConfig) =
     [(''https://gitlab.com/api/v4/projects/group/project/repository/files/data/big.bin/raw?ref=main'',
       [(''User-Agent'', ''subdir-web'')])]"
proof -
  have sz: "item_size bigItem = Some 104857601" by (simp add: bigItem_def)
  have nm: "item_name bigItem = ''big.bin''" by (simp add: bigItem_def)
  have gt: "(104857601::nat) > MAX_FILE_SIZE" by (simp add: MAX_FILE_SIZE_def)
  have mem: "gitlab_toEntry gitlabItem \<in> set [gitlab_toEntry gitlabItem]" by simp
  note t = oversized_file_rejected_before_transfer[where env = bigServer and config = gitlabConfig
      and item = bigItem]
  note u = oversized_file_rejected_before_transfer[where env = "gitlabServer hugePayload"
      and config = gitlabConfig and env' = "gitlabServer hugePayload" and config' = gitlabConfig]
  from t sz have s: "size_f (github_toEntry bigItem) > MAX_FILE_SIZE"
    using gt by simp
  from t sz gt nm have r: "github_downloadFile bigServer (github_toEntry bigItem) gitlabConfig =
     (Inl (DownloadErr (createFileTooLargeError ''big.bin'')), [])"
    by simp
  from u huge_listing mem have z: "size_f (gitlab_toEntry gitlabItem) = 0"
    and q0: "snd (gitlab_downloadFile (gitlabServer hugePayload) (gitlab_toEntry gitlabItem)
                gitlabConfig) =
        [(GITLAB_API @ ''/projects/'' @
          encodeProjectId (gitlabServer hugePayload) (owner gitlabConfig) (repo gitlabConfig) @
          ''/repository/files/'' @
          encodeURIComponent (gitlabServer hugePayload) (path (gitlab_toEntry gitlabItem)) @
          ''/raw?ref='' @ branch gitlabConfig,
          gitlab_getHeaders (token gitlabConfig))]"
    by blast+
  from q0 have q: "snd (gitlab_downloadFile (gitlabServer hugePayload) (gitlab_toEntry gitlabItem)
                gitlabConfig) =
     [(''https://gitlab.com/api/v4/projects/group/project/repository/files/data/big.bin/raw?ref=main'',
       [(''User-Agent'', ''subdir-web'')])]"
    by (simp add: GITLAB_API_def encodeProjectId_def gitlabServer_def gitlabConfig_def
        gitlab_toEntry_def gitlabItem_def gitlab_getHeaders_def)
  show ?thesis
    by (rule conjI[OF big_listing conjI[OF sz conjI[OF s conjI[OF r conjI[OF huge_listing
          conjI[OF z q]]]]]])
qed

text \<open>
  Where the claim fails: a file discovered by the GitLab adapter, with a content of one
  byte more than the cap, is requested and transferred whole.
\<close>

theorem gitlab_oversized_file_counterexample:
  "fst (gitlab_fetchContents (gitlabServer hugePayload) gitlabConfig) =
     Inr [gitlab_toEntry gitlabItem] \<and>
   length hugePayload = MAX_FILE_SIZE + 1 \<and>
   gitlab_downloadFile (gitlabServer hugePayload) (gitlab_toEntry gitlabItem) gitlabConfig =
     (Inr hugePayload,
      [(''https://gitlab.com/api/v4/projects/group/project/repository/files/data/big.bin/raw?ref=main'',
        [(''User-Agent'', ''subdir-web'')])])"
proof -
  have "length hugePayload = MAX_FILE_SIZE + 1" by (simp add: hugePayload_def)
  moreover have "gitlab_downloadFile (gitlabServer hugePayload) (gitlab_toEntry gitlabItem)
      gitlabConfig =
     (Inr hugePayload,
      [(''https://gitlab.com/api/v4/projects/group/project/repository/files/data/big.bin/raw?ref=main'',
        [(''User-Agent'', ''subdir-web'')])])"
    by (simp add: gitlab_downloadFile_def Let_def MAX_FILE_SIZE_def GITLAB_API_def
        encodeProjectId_def gitlabServer_def gitlabConfig_def gitlab_toEntry_def gitlabItem_def
        gitlab_getHeaders_def webFetch_def ok_def)
  ultimately show ?thesis using huge_listing by simp
qed

subsection \<open>Relative paths\<close>

lemma stripLeadingSlash_alt:
  "stripLeadingSlash s = (if prefix ''/'' s then drop 1 s else s)"
  by (cases s) (auto simp: stripLeadingSlash_def)

lemma replaceString_prefix: "replaceString pat rep (pat @ s) = rep @ s"
proof (cases "pat @ s")
  case Nil
  then show ?thesis by simp
next
  case (Cons a list)
  have "prefix pat (a # list)" using Cons by (metis prefixI)
  moreover have "drop (length pat) (a # list) = s" using Cons by (metis append_eq_conv_conj)
  ultimately show ?thesis using Cons by simp
qed

lemma replaceString_absent:
  "(\<forall>a b. s \<noteq> a @ pat @ b) \<Longrightarrow> replaceString pat rep s = s"
proof (induction s)
  case Nil
  then show ?case by (auto dest: spec[of _ "[]"])
next
  case (Cons c s)
  have np: "\<not> prefix pat (c # s)"
  proof
    assume "prefix pat (c # s)"
    then obtain b where "c # s = pat @ b" by (auto simp: prefix_def)
    with Cons.prems show False by (metis append_Nil)
  qed
  have "\<forall>a b. s \<noteq> a @ pat @ b"
  proof (intro allI notI)
    fix a b assume "s = a @ pat @ b"
    then have "c # s = (c # a) @ pat @ b" by simp
    with Cons.prems show False by blast
  qed
  with Cons.IH have "replaceString pat rep s = s" by blast
  with np show ?case by simp
qed

lemma relativePathOf_under:
  "FetchConfig.path config \<noteq> [] \<Longrightarrow> path file = FetchConfig.path config @ ''/'' @ rest \<Longrightarrow>
   relativePathOf config file = stripLeadingSlash rest"
  by (simp add: relativePathOf_def startsWith_def sliceFrom_def stripLeadingSlash_alt Let_def)

lemma relativePathOf_glued:
  assumes "FetchConfig.path config \<noteq> []" and "path file = FetchConfig.path config @ rest"
    and "\<not> prefix ''/'' rest"
  shows "relativePathOf config file = rest"
proof -
  have "\<not> prefix (FetchConfig.path config @ ''/'') (path file)"
    using assms(2,3) by (cases rest) auto
  then show ?thesis
    using assms by (simp add: relativePathOf_def startsWith_def sliceFrom_def Let_def)
qed

lemma relativePathOf_outside:
  "\<not> prefix (FetchConfig.path config) (path file) \<Longrightarrow>
   relativePathOf config file = stripLeadingSlash (path file)"
  by (auto simp: relativePathOf_def startsWith_def sliceFrom_def stripLeadingSlash_alt Let_def
      dest: append_prefixD)

lemma relativePathOf_no_root:
  "FetchConfig.path config = [] \<Longrightarrow> relativePathOf config file = stripLeadingSlash (path file)"
  by (simp add: relativePathOf_def startsWith_def sliceFrom_def stripLeadingSlash_alt Let_def)

lemma cli_relativePath_under:
  "path file = basePath @ rest \<Longrightarrow> cli_relativePath basePath file = stripLeadingSlash rest"
  by (simp add: cli_relativePath_def replaceString_prefix)

lemma replaceString_first:
  "(\<forall>k < length pre. \<not> prefix pat (drop k (pre @ pat @ post))) \<Longrightarrow>
   replaceString pat rep (pre @ pat @ post) = pre @ rep @ post"
proof (induction pre)
  case Nil
  then show ?case by (simp add: replaceString_prefix)
next
  case (Cons c pre)
  from Cons.prems have "\<not> prefix pat (drop 0 ((c # pre) @ pat @ post))" by blast
  then have np: "\<not> prefix pat (c # pre @ pat @ post)" by simp
  have "\<forall>k < length pre. \<not> prefix pat (drop k (pre @ pat @ post))"
  proof (intro allI impI)
    fix k assume "k < length pre"
    then have "Suc k < length (c # pre)" by simp
    with Cons.prems have "\<not> prefix pat (drop (Suc k) ((c # pre) @ pat @ post))" by blast
    then show "\<not> prefix pat (drop k (pre @ pat @ post))" by simp
  qed
  with Cons.IH have "replaceString pat rep (pre @ pat @ post) = pre @ rep @ post" by blast
  with np show ?case by simp
qed

lemma relativePathOf_root:
  "FetchConfig.path config \<noteq> [] \<Longrightarrow> path file = FetchConfig.path config \<Longrightarrow>
   relativePathOf config file = []"
  by (simp add: relativePathOf_def startsWith_def sliceFrom_def Let_def)

lemma relativePathOf_slash:
  "FetchConfig.path config \<noteq> [] \<Longrightarrow> prefix (FetchConfig.path config @ ''/'') (path file) \<Longrightarrow>
   relativePathOf config file =
     stripLeadingSlash (drop (length (FetchConfig.path config) + 1) (path file))"
  by (simp add: relativePathOf_def startsWith_def sliceFrom_def stripLeadingSlash_alt Let_def)

lemma relativePathOf_prefix:
  assumes "FetchConfig.path config \<noteq> []" and "prefix (FetchConfig.path config) (path file)"
    and "\<not> prefix (FetchConfig.path config @ ''/'') (path file)"
  shows "relativePathOf config file = drop (length (FetchConfig.path config)) (path file)"
proof -
  from assms(2) obtain rest where r: "path file = FetchConfig.path config @ rest"
    by (auto simp: prefix_def)
  with assms(3) have "\<not> prefix ''/'' rest" by simp
  from relativePathOf_glued[OF assms(1) r this] r show ?thesis by simp
qed

lemma spec_relativePath_agrees:
  assumes "FetchConfig.path config = root" and "path file = full" and "full \<noteq> root"
    and "root = [] \<or> \<not> prefix root full \<or>
         (prefix (root @ ''/'') full \<and> \<not> prefix (root @ ''//'') full)"
  shows "relativePathOf config file = spec_relativePath root full ownName"
proof -
  consider (none) "root = []"
    | (outside) "root \<noteq> []" "\<not> prefix root full"
    | (under) "root \<noteq> []" "prefix (root @ ''/'') full" "\<not> prefix (root @ ''//'') full"
    using assms(4) by blast
  then show ?thesis
  proof cases
    case none
    with assms(1,2,3) show ?thesis
      by (simp add: relativePathOf_no_root spec_relativePath_def stripLeadingSlash_alt)
  next
    case outside
    then have "\<not> prefix (root @ ''/'') full" by (auto dest: append_prefixD)
    with outside assms(1,2,3) show ?thesis
      by (simp add: relativePathOf_outside spec_relativePath_def)
  next
    case under
    from under(2) obtain rest where r: "full = root @ ''/'' @ rest" by (auto simp: prefix_def)
    with under(3) have "\<not> prefix ''/'' rest" by simp
    then have "stripLeadingSlash rest = rest" by (simp add: stripLeadingSlash_alt)
    with under(1,2) assms(1,2,3) r relativePathOf_under[of config "file" rest] show ?thesis
      by (simp add: spec_relativePath_def)
  qed
qed

text \<open>
  C3. What the code computes, for every root path and full path; the function is total.
  In the web engine there are four cases, which leave no path out: with an empty root
  path, the full path without one leading slash; when the full path starts with the
  root path and a slash, what follows them, without one leading slash; when it starts
  with the root path but not with the root path and a slash, what follows the root path,
  which is the empty string when the full path is the root path; and when it does not
  start with the root path, the full path without one leading slash. In the CLI the
  first occurrence of the root path, wherever it is, is cut out of the full path, and
  then one leading slash; the full path loses one leading slash when the root path does
  not occur in it. So for the file whose full path is the root path both engines compute
  the empty string, where the rule of the specification gives the file's own name. Where
  the full path is not the root path and either the root path is empty, or the full path
  does not start with it, or it starts with the root path and exactly one slash, the
  web engine computes what the rule of the specification gives.
\<close>

theorem relative_path_cases:
  assumes "FetchConfig.path config = root" and "path file = full"
  shows "(root = [] \<longrightarrow> relativePathOf config file = stripLeadingSlash full) \<and>
         (root \<noteq> [] \<and> prefix (root @ ''/'') full \<longrightarrow>
            relativePathOf config file = stripLeadingSlash (drop (length root + 1) full)) \<and>
         (root \<noteq> [] \<and> prefix root full \<and> \<not> prefix (root @ ''/'') full \<longrightarrow>
            relativePathOf config file = drop (length root) full) \<and>
         (\<not> prefix root full \<longrightarrow> relativePathOf config file = stripLeadingSlash full) \<and>
         (\<forall>pre post. full = pre @ root @ post \<and>
                      (\<forall>k < length pre. \<not> prefix root (drop k full)) \<longrightarrow>
            cli_relativePath root file = stripLeadingSlash (pre @ post)) \<and>
         ((\<forall>a b. full \<noteq> a @ root @ b) \<longrightarrow> cli_relativePath root file = stripLeadingSlash full) \<and>
         (full = root \<and> root \<noteq> [] \<longrightarrow>
            relativePathOf config file = [] \<and> cli_relativePath root file = [] \<and>
            spec_relativePath root full (FileEntry.name file) = FileEntry.name file) \<and>
         (full \<noteq> root \<and>
          (root = [] \<or> \<not> prefix root full \<or>
           (prefix (root @ ''/'') full \<and> \<not> prefix (root @ ''//'') full)) \<longrightarrow>
            relativePathOf config file = spec_relativePath root full (FileEntry.name file))"
proof (intro conjI allI impI)
  assume "root = []"
  then show "relativePathOf config file = stripLeadingSlash full"
    using assms relativePathOf_no_root by simp
next
  assume "root \<noteq> [] \<and> prefix (root @ ''/'') full"
  then show "relativePathOf config file = stripLeadingSlash (drop (length root + 1) full)"
    using assms relativePathOf_slash[of config "file"] by simp
next
  assume "root \<noteq> [] \<and> prefix root full \<and> \<not> prefix (root @ ''/'') full"
  then show "relativePathOf config file = drop (length root) full"
    using assms relativePathOf_prefix[of config "file"] by simp
next
  assume "\<not> prefix root full"
  then show "relativePathOf config file = stripLeadingSlash full"
    using assms relativePathOf_outside[of config "file"] by simp
next
  fix pre post
  assume a: "full = pre @ root @ post \<and> (\<forall>k < length pre. \<not> prefix root (drop k full))"
  then have e: "full = pre @ root @ post"
    and m: "\<forall>k < length pre. \<not> prefix root (drop k full)" by blast+
  from m[unfolded e] have "replaceString root [] (pre @ root @ post) = pre @ [] @ post"
    by (rule replaceString_first)
  with e assms(2) show "cli_relativePath root file = stripLeadingSlash (pre @ post)"
    by (simp add: cli_relativePath_def)
next
  assume "\<forall>a b. full \<noteq> a @ root @ b"
  then show "cli_relativePath root file = stripLeadingSlash full"
    using assms by (simp add: cli_relativePath_def replaceString_absent)
next
  assume a: "full = root \<and> root \<noteq> []"
  with assms show "relativePathOf config file = []"
    using relativePathOf_root[of config "file"] by simp
  from a assms(2) cli_relativePath_under[of "file" root "[]"]
  show "cli_relativePath root file = []" by (simp add: stripLeadingSlash_def)
  from a show "spec_relativePath root full (FileEntry.name file) = FileEntry.name file"
    by (simp add: spec_relativePath_def)
next
  assume "full \<noteq> root \<and>
          (root = [] \<or> \<not> prefix root full \<or>
           (prefix (root @ ''/'') full \<and> \<not> prefix (root @ ''//'') full))"
  then show "relativePathOf config file = spec_relativePath root full (FileEntry.name file)"
    using spec_relativePath_agrees[OF assms] by blast
qed

theorem relative_path_cases_witness:
  "FetchConfig.path blobConfig = ''src/index.ts'' \<and>
   path (github_toEntry blobItem) = ''src/index.ts'' \<and>
   FileEntry.name (github_toEntry blobItem) = ''index.ts'' \<and>
   relativePathOf blobConfig (github_toEntry blobItem) = [] \<and>
   cli_relativePath ''src/index.ts'' (github_toEntry blobItem) = [] \<and>
   spec_relativePath ''src/index.ts'' ''src/index.ts'' (FileEntry.name (github_toEntry blobItem))
     = ''index.ts'' \<and>
   FetchConfig.path exampleConfig = ''root'' \<and>
   relativePathOf exampleConfig (fileEntry ''b.txt'' ''root/sub/b.txt'') = ''sub/b.txt'' \<and>
   cli_relativePath ''root'' (fileEntry ''b.txt'' ''root/sub/b.txt'') = ''sub/b.txt'' \<and>
   spec_relativePath ''root'' ''root/sub/b.txt'' ''b.txt'' = ''sub/b.txt'' \<and>
   relativePathOf exampleConfig (fileEntry ''b.txt'' ''other/root/b.txt'') = ''other/root/b.txt'' \<and>
   cli_relativePath ''root'' (fileEntry ''b.txt'' ''other/root/b.txt'') = ''other//b.txt'' \<and>
   relativePathOf exampleConfig (fileEntry ''a.txt'' ''root//a.txt'') = ''a.txt'' \<and>
   cli_relativePath ''root'' (fileEntry ''a.txt'' ''root//a.txt'') = ''/a.txt'' \<and>
   relativePathOf exampleConfig (fileEntry ''a.txt'' ''rootfoo/a.txt'') = ''foo/a.txt''"
proof -
  have bc: "FetchConfig.path blobConfig = ''src/index.ts''" by (simp add: blobConfig_def)
  have bp: "path (github_toEntry blobItem) = ''src/index.ts''"
    by (simp add: github_toEntry_def blobItem_def)
  have bn: "FileEntry.name (github_toEntry blobItem) = ''index.ts''"
    by (simp add: github_toEntry_def blobItem_def)
  from relative_path_cases[OF bc bp]
  have b1: "relativePathOf blobConfig (github_toEntry blobItem) = []"
    and b2: "cli_relativePath ''src/index.ts'' (github_toEntry blobItem) = []"
    and b3: "spec_relativePath ''src/index.ts'' ''src/index.ts''
               (FileEntry.name (github_toEntry blobItem)) = ''index.ts''"
    by (simp_all add: bn)
  have c: "FetchConfig.path exampleConfig = ''root''" by (simp add: exampleConfig_def)
  have f: "path (fileEntry n p) = p" "FileEntry.name (fileEntry n p) = n" for n p
    by (simp_all add: fileEntry_def)
  note under = relative_path_cases[OF c f(1)[of "''b.txt''" "''root/sub/b.txt''"]]
  from under have u1: "relativePathOf exampleConfig (fileEntry ''b.txt'' ''root/sub/b.txt'')
          = ''sub/b.txt''"
    by (simp add: stripLeadingSlash_def)
  from under have "\<forall>pre post. ''root/sub/b.txt'' = pre @ ''root'' @ post \<and>
                      (\<forall>k < length pre. \<not> prefix ''root'' (drop k ''root/sub/b.txt'')) \<longrightarrow>
            cli_relativePath ''root'' (fileEntry ''b.txt'' ''root/sub/b.txt'')
              = stripLeadingSlash (pre @ post)"
    by blast
  from this[rule_format, of "[]" "''/sub/b.txt''"]
  have u2: "cli_relativePath ''root'' (fileEntry ''b.txt'' ''root/sub/b.txt'') = ''sub/b.txt''"
    by (simp add: stripLeadingSlash_def)
  from under have u3: "spec_relativePath ''root'' ''root/sub/b.txt'' ''b.txt'' = ''sub/b.txt''"
    using u1 by (simp add: f)
  note other = relative_path_cases[OF c f(1)[of "''b.txt''" "''other/root/b.txt''"]]
  from other have o1: "relativePathOf exampleConfig (fileEntry ''b.txt'' ''other/root/b.txt'')
          = ''other/root/b.txt''"
    by (simp add: stripLeadingSlash_def)
  from other have "\<forall>pre post. ''other/root/b.txt'' = pre @ ''root'' @ post \<and>
                      (\<forall>k < length pre. \<not> prefix ''root'' (drop k ''other/root/b.txt'')) \<longrightarrow>
            cli_relativePath ''root'' (fileEntry ''b.txt'' ''other/root/b.txt'')
              = stripLeadingSlash (pre @ post)"
    by blast
  from this[rule_format, of "''other/''" "''/b.txt''"]
  have o2: "cli_relativePath ''root'' (fileEntry ''b.txt'' ''other/root/b.txt'') = ''other//b.txt''"
    by (simp add: stripLeadingSlash_def less_Suc_eq)
  note double = relative_path_cases[OF c f(1)[of "''a.txt''" "''root//a.txt''"]]
  from double have d1: "relativePathOf exampleConfig (fileEntry ''a.txt'' ''root//a.txt'') = ''a.txt''"
    by (simp add: stripLeadingSlash_def)
  from double have "\<forall>pre post. ''root//a.txt'' = pre @ ''root'' @ post \<and>
                      (\<forall>k < length pre. \<not> prefix ''root'' (drop k ''root//a.txt'')) \<longrightarrow>
            cli_relativePath ''root'' (fileEntry ''a.txt'' ''root//a.txt'')
              = stripLeadingSlash (pre @ post)"
    by blast
  from this[rule_format, of "[]" "''//a.txt''"]
  have d2: "cli_relativePath ''root'' (fileEntry ''a.txt'' ''root//a.txt'') = ''/a.txt''"
    by (simp add: stripLeadingSlash_def)
  from relative_path_cases[OF c f(1)[of "''a.txt''" "''rootfoo/a.txt''"]]
  have g: "relativePathOf exampleConfig (fileEntry ''a.txt'' ''rootfoo/a.txt'') = ''foo/a.txt''"
    by simp
  show ?thesis
    by (rule conjI[OF bc conjI[OF bp conjI[OF bn conjI[OF b1 conjI[OF b2 conjI[OF b3
          conjI[OF c conjI[OF u1 conjI[OF u2 conjI[OF u3 conjI[OF o1 conjI[OF o2
          conjI[OF d1 conjI[OF d2 g]]]]]]]]]]]]]])
qed

subsection \<open>An empty directory\<close>

text \<open>
  C6, as the code has it. When the traversal of the web engine completes with no file
  collected, \<^verbatim>\<open>collectFiles\<close> and with it \<^verbatim>\<open>downloadDirectory\<close> reject with the
  \<^verbatim>\<open>EMPTY_DIRECTORY\<close> error; what has happened by then is the traversal and nothing else,
  and no archive is made. When the traversal of the CLI completes with no file,
  \<^verbatim>\<open>downloadDirectory\<close> of the CLI prints a line and returns without an error, and writes
  no file.
\<close>

theorem empty_directory_outcome:
  "(collectFilesRecursively fuel provider config (FetchConfig.path config) initialWalk
      = Some (None, st) \<and> collectedFiles st = [] \<longrightarrow>
    collectFiles fuel latency provider config =
      Some (Inl (DownloadErr createEmptyDirectoryError), effects st) \<and>
    downloadDirectory fuel latency provider config =
      Some (Inl (DownloadErr createEmptyDirectoryError), effects st)) \<and>
   code createEmptyDirectoryError = EMPTY_DIRECTORY \<and>
   (cli_collectFiles fuel cliProvider (FetchConfig.truncate dconfig) (FetchConfig.path dconfig)
      = Some (Inr []) \<longrightarrow>
    cli_downloadDirectory fuel env np cliProvider dconfig =
      Some (None, [ConsoleLog ''No files found in directory.'']))"
  by (simp add: collectFiles_def downloadDirectory_def initialWalk_def
      createEmptyDirectoryError_def cli_downloadDirectory_def)

theorem empty_directory_outcome_witness:
  "collectFilesRecursively 1 emptyProvider exampleConfig (FetchConfig.path exampleConfig)
     initialWalk
     = Some (None, initialWalk\<lparr>effects := effects initialWalk @ [FetchContentsCall exampleConfig]\<rparr>) \<and>
   collectedFiles (initialWalk\<lparr>effects := effects initialWalk @ [FetchContentsCall exampleConfig]\<rparr>)
     = [] \<and>
   downloadDirectory 1 (\<lambda>f. 0) emptyProvider exampleConfig =
     Some (Inl (DownloadErr createEmptyDirectoryError),
           effects initialWalk @ [FetchContentsCall exampleConfig]) \<and>
   cli_collectFiles 1 emptyCliProvider (FetchConfig.truncate exampleDownloadConfig)
     (FetchConfig.path exampleDownloadConfig) = Some (Inr []) \<and>
   cli_downloadDirectory 1 blobServer exampleNodePath emptyCliProvider exampleDownloadConfig =
     Some (None, [ConsoleLog ''No files found in directory.''])"
proof -
  have w: "collectFilesRecursively 1 emptyProvider exampleConfig (FetchConfig.path exampleConfig)
     initialWalk
     = Some (None, initialWalk\<lparr>effects := effects initialWalk @ [FetchContentsCall exampleConfig]\<rparr>)"
    by (simp add: emptyProvider_def)
  have e: "collectedFiles
      (initialWalk\<lparr>effects := effects initialWalk @ [FetchContentsCall exampleConfig]\<rparr>) = []"
    by (simp add: initialWalk_def)
  have c: "cli_collectFiles 1 emptyCliProvider (FetchConfig.truncate exampleDownloadConfig)
     (FetchConfig.path exampleDownloadConfig) = Some (Inr [])"
    by (simp add: emptyCliProvider_def)
  from empty_directory_outcome[where fuel = 1 and provider = emptyProvider
      and config = exampleConfig
      and st = "initialWalk\<lparr>effects := effects initialWalk @ [FetchContentsCall exampleConfig]\<rparr>"
      and latency = "\<lambda>f. 0" and cliProvider = emptyCliProvider
      and dconfig = exampleDownloadConfig and env = blobServer and np = exampleNodePath]
    w e c
  show ?thesis by simp
qed

text \<open>
  Where the claim fails: the CLI, on a directory without files, ends without any error.
\<close>

theorem cli_empty_directory_counterexample:
  "cli_collectFiles 1 emptyCliProvider (FetchConfig.truncate exampleDownloadConfig)
     (FetchConfig.path exampleDownloadConfig) = Some (Inr []) \<and>
   cli_downloadDirectory 1 blobServer exampleNodePath emptyCliProvider exampleDownloadConfig =
     Some (None, [ConsoleLog ''No files found in directory.''])"
  by (simp add: cli_downloadDirectory_def emptyCliProvider_def)

subsection \<open>Entries that are neither files nor directories\<close>

lemma submodule_listing_web:
  "fst (github_fetchContents submoduleServer submoduleConfig) =
     Inr [github_toEntry readmeItem, github_toEntry submoduleItem]"
  by (simp add: github_fetchContents_def submoduleServer_def submoduleConfig_def webFetch_def
      ok_def Let_def GITHUB_API_def)

lemma submodule_types:
  "type (github_toEntry readmeItem) = ''file''" "type (github_toEntry submoduleItem) = ''file''"
  by (simp_all add: github_toEntry_def readmeItem_def submoduleItem_def)

lemma submodule_walk:
  "collectFilesRecursively (Suc 0) (github submoduleServer) submoduleConfig ''src'' initialWalk =
     Some (None,
       \<lparr>collectedFiles = [github_toEntry readmeItem, github_toEntry submoduleItem],
        effects = effects initialWalk @
          [FetchContentsCall submoduleConfig,
           OnProgress \<lparr>phase = fetching, current = 1, total = 1, currentFile = None\<rparr>,
           OnProgress \<lparr>phase = fetching, current = 2, total = 2, currentFile = None\<rparr>]\<rparr>)"
  by (simp add: github_def submodule_listing_web submodule_types reportFetching_def initialWalk_def)

lemma n404: "numberToString 404 = ''404''"
  by (simp add: numberToString.simps)

lemma submodule_downloads:
  "downloadFile (github submoduleServer) (github_toEntry readmeItem) submoduleConfig = Inr [35, 10]"
  "downloadFile (github submoduleServer) (github_toEntry submoduleItem) submoduleConfig =
     Inl (DownloadErr (createProviderError ''Failed to download file: 404''))"
  by (simp_all add: github_def github_downloadFile_def github_downloadRaw_def github_toEntry_def
      readmeItem_def submoduleItem_def submoduleServer_def submoduleConfig_def webFetch_def ok_def
      Let_def MAX_FILE_SIZE_def n404)

lemma submodule_distinct: "github_toEntry readmeItem \<noteq> github_toEntry submoduleItem"
  by (simp add: github_toEntry_def readmeItem_def submoduleItem_def)

lemma submodule_run:
  "map_option (\<lambda>r. (rejectionOf (fst r),
                     filter (\<lambda>e. e = DownloadFileCall (github_toEntry submoduleItem)) (snd r)))
     (downloadDirectory (Suc 0) (\<lambda>f. 0) (github submoduleServer) submoduleConfig) =
     Some (Some (DownloadErr (createProviderError ''Failed to download file: 404'')),
           [DownloadFileCall (github_toEntry submoduleItem)])"
proof -
  have cf: "FetchConfig.path submoduleConfig = ''src''" by (simp add: submoduleConfig_def)
  have pb: "processBatches (github submoduleServer) submoduleConfig (\<lambda>f. 0)
              [github_toEntry readmeItem, github_toEntry submoduleItem] 0 ds =
            (Some (DownloadErr (createProviderError ''Failed to download file: 404'')),
             ds\<lparr>completed := completed ds + 1,
                trace := trace ds @
                  [OnProgress \<lparr>phase = downloading, current = completed ds, total = 2,
                     currentFile = Some (FileEntry.name (github_toEntry readmeItem))\<rparr>,
                   DownloadFileCall (github_toEntry readmeItem),
                   OnProgress \<lparr>phase = downloading, current = completed ds, total = 2,
                     currentFile = Some (FileEntry.name (github_toEntry submoduleItem))\<rparr>,
                   DownloadFileCall (github_toEntry submoduleItem),
                   DownloadFileSettled (github_toEntry readmeItem),
                   DownloadFileSettled (github_toEntry submoduleItem)]\<rparr>)" for ds
    by (simp add: processBatches.simps[of _ _ _ _ 0] slice_def CONCURRENT_DOWNLOADS_def
        downloadBatch_def settleOrder_def downloadOne_def submodule_downloads Let_def)
  have "\<exists>tr. collectFiles (Suc 0) (\<lambda>f. 0) (github submoduleServer) submoduleConfig =
          Some (Inl (DownloadErr (createProviderError ''Failed to download file: 404'')), tr) \<and>
        filter (\<lambda>e. e = DownloadFileCall (github_toEntry submoduleItem)) tr =
          [DownloadFileCall (github_toEntry submoduleItem)]"
    by (simp only: collectFiles_def cf submodule_walk)
       (simp add: pb submodule_distinct initialWalk_def)
  then show ?thesis
    by (auto simp: downloadDirectory_def rejectionOf_def)
qed

lemma submodule_listing_cli:
  "fst (cli_github_fetchContents submoduleServer submoduleConfig) =
     Inr [cli_github_toEntry readmeItem]"
  by (simp add: cli_github_fetchContents_def fetchContentsApi_def submoduleServer_def
      submoduleConfig_def cliFetch_def ok_def Let_def API_BASE_github_def readmeItem_def
      submoduleItem_def)

text \<open>
  C8 at a GitHub directory with a submodule. The CLI adapter leaves the submodule out
  of the listing, so the walker of the CLI never sees it. The web adapter returns it as
  an entry of type \<^verbatim>\<open>"file"\<close>: the walker collects it, the engine calls \<^verbatim>\<open>downloadFile\<close>
  on it, and the failure of that download rejects the whole operation.
\<close>

theorem web_github_downloads_submodule:
  "type (github_toEntry submoduleItem) = ''file'' \<and>
   fst (github_fetchContents submoduleServer submoduleConfig) =
     Inr [github_toEntry readmeItem, github_toEntry submoduleItem] \<and>
   fst (cli_github_fetchContents submoduleServer submoduleConfig) =
     Inr [cli_github_toEntry readmeItem] \<and>
   map_option (\<lambda>r. (fst r, collectedFiles (snd r)))
     (collectFilesRecursively (Suc 0) (github submoduleServer) submoduleConfig ''src''
        initialWalk) =
     Some (None, [github_toEntry readmeItem, github_toEntry submoduleItem]) \<and>
   map_option (\<lambda>r. (rejectionOf (fst r),
                     filter (\<lambda>e. e = DownloadFileCall (github_toEntry submoduleItem)) (snd r)))
     (downloadDirectory (Suc 0) (\<lambda>f. 0) (github submoduleServer) submoduleConfig) =
     Some (Some (DownloadErr (createProviderError ''Failed to download file: 404'')),
           [DownloadFileCall (github_toEntry submoduleItem)])"
  using submodule_types(2) submodule_listing_web submodule_listing_cli submodule_run
  by (simp add: submodule_walk del: collectFilesRecursively.simps)

subsection \<open>The calls of a traversal\<close>

lemma providerEvents_append [simp]:
  "providerEvents (xs @ ys) = providerEvents xs @ providerEvents ys"
  by (simp add: providerEvents_def)

lemma providerEvents_simps [simp]:
  "providerEvents [] = []"
  "providerEvents (OnProgress p # tr) = providerEvents tr"
  "providerEvents (FetchContentsCall c # tr) = FetchContentsCall c # providerEvents tr"
  "providerEvents (DownloadFileCall f # tr) = DownloadFileCall f # providerEvents tr"
  "providerEvents (DownloadFileSettled f # tr) = DownloadFileSettled f # providerEvents tr"
  by (simp_all add: providerEvents_def isProgress_def)

lemma walked_same:
  "providerEvents (effects st') = providerEvents (effects st) \<Longrightarrow> walked provider st None st'"
  unfolding walked_def by (rule exI[of _ "[]"]) simp

lemma walked_trans:
  assumes "walked provider st None st1" and "walked provider st1 r st2"
  shows "walked provider st r st2"
proof -
  from assms(1) obtain cs1 where
    e1: "providerEvents (effects st1) = providerEvents (effects st) @ map FetchContentsCall cs1"
    and ok1: "\<forall>c \<in> set cs1. \<not> isl (fetchContents provider c)"
    by (auto simp: walked_def)
  from assms(2) obtain cs2 where
    e2: "providerEvents (effects st2) = providerEvents (effects st1) @ map FetchContentsCall cs2"
    and r2: "case r of
               None \<Rightarrow> (\<forall>c \<in> set cs2. \<not> isl (fetchContents provider c))
             | Some err \<Rightarrow> cs2 \<noteq> [] \<and> fetchContents provider (last cs2) = Inl err \<and>
                 (\<forall>c \<in> set (butlast cs2). \<not> isl (fetchContents provider c))"
    by (auto simp: walked_def)
  have e: "providerEvents (effects st2) =
             providerEvents (effects st) @ map FetchContentsCall (cs1 @ cs2)"
    using e1 e2 by simp
  show ?thesis
  proof (cases r)
    case None
    with r2 ok1 have "\<forall>c \<in> set (cs1 @ cs2). \<not> isl (fetchContents provider c)" by auto
    with e None show ?thesis unfolding walked_def by (intro exI[of _ "cs1 @ cs2"]) simp
  next
    case (Some err)
    with r2 have ne: "cs2 \<noteq> []" and l: "fetchContents provider (last cs2) = Inl err"
      and b: "\<forall>c \<in> set (butlast cs2). \<not> isl (fetchContents provider c)" by auto
    from ne have "butlast (cs1 @ cs2) = cs1 @ butlast cs2" by (simp add: butlast_append)
    with ok1 b have "\<forall>c \<in> set (butlast (cs1 @ cs2)). \<not> isl (fetchContents provider c)" by auto
    with e Some ne l show ?thesis unfolding walked_def by (intro exI[of _ "cs1 @ cs2"]) simp
  qed
qed

lemma walked_call_fulfilled:
  "fetchContents provider config = Inr entries \<Longrightarrow>
   walked provider st None (st\<lparr>effects := effects st @ [FetchContentsCall config]\<rparr>)"
  unfolding walked_def by (rule exI[of _ "[config]"]) simp

lemma walked_call_rejected:
  "fetchContents provider config = Inl err \<Longrightarrow>
   walked provider st (Some err) (st\<lparr>effects := effects st @ [FetchContentsCall config]\<rparr>)"
  unfolding walked_def by (rule exI[of _ "[config]"]) simp

lemma forEntries_walked:
  assumes rec: "\<And>c s r s'. recurse c s = Some (r, s') \<Longrightarrow> walked provider s r s'"
  shows "forEntries recurse config entries st = Some (r, st') \<Longrightarrow> walked provider st r st'"
proof (induction entries arbitrary: st)
  case Nil
  then show ?case by (simp add: walked_same)
next
  case (Cons entry rest)
  show ?case
  proof (cases "type entry = ''file''")
    case True
    let ?s = "reportFetching (st\<lparr>collectedFiles := collectedFiles st @ [entry]\<rparr>)"
    from Cons.prems True have "forEntries recurse config rest ?s = Some (r, st')" by simp
    then have "walked provider ?s r st'" by (rule Cons.IH)
    moreover have "walked provider st None ?s"
      by (rule walked_same) (simp add: reportFetching_def)
    ultimately show ?thesis by (rule walked_trans[rotated])
  next
    case False
    show ?thesis
    proof (cases "type entry = ''dir''")
      case True
      show ?thesis
      proof (cases "recurse (config\<lparr>FetchConfig.path := path entry\<rparr>) st")
        case None
        with Cons.prems False True show ?thesis by simp
      next
        case (Some res)
        obtain r1 s1 where res: "res = (r1, s1)" by (cases res)
        with Some have w1: "walked provider st r1 s1" using rec by blast
        show ?thesis
        proof (cases r1)
          case None
          with Cons.prems False True Some res
          have "forEntries recurse config rest (reportFetching s1) = Some (r, st')" by simp
          then have "walked provider (reportFetching s1) r st'" by (rule Cons.IH)
          moreover have "walked provider s1 None (reportFetching s1)"
            by (rule walked_same) (simp add: reportFetching_def)
          ultimately have "walked provider s1 r st'" by (rule walked_trans[rotated])
          with w1 None show ?thesis using walked_trans by blast
        next
          case (Some err)
          with Cons.prems False True \<open>recurse _ st = Some res\<close> res
          have "r = Some err" "st' = s1" by simp_all
          with w1 Some show ?thesis by simp
        qed
      qed
    next
      case nd: False
      from Cons.prems False nd
      have "forEntries recurse config rest (reportFetching st) = Some (r, st')" by simp
      then have "walked provider (reportFetching st) r st'" by (rule Cons.IH)
      moreover have "walked provider st None (reportFetching st)"
        by (rule walked_same) (simp add: reportFetching_def)
      ultimately show ?thesis by (rule walked_trans[rotated])
    qed
  qed
qed

lemma collectFilesRecursively_walked:
  "collectFilesRecursively fuel provider config basePath st = Some (r, st') \<Longrightarrow>
   walked provider st r st'"
proof (induction fuel arbitrary: config st r st')
  case 0
  then show ?case by simp
next
  case (Suc fuel)
  let ?st1 = "st\<lparr>effects := effects st @ [FetchContentsCall config]\<rparr>"
  show ?case
  proof (cases "fetchContents provider config")
    case (Inl err)
    with Suc.prems have "r = Some err" "st' = ?st1" by simp_all
    with Inl show ?thesis by (simp add: walked_call_rejected)
  next
    case (Inr entries)
    with Suc.prems
    have "forEntries (\<lambda>c s. collectFilesRecursively fuel provider c basePath s) config entries ?st1
            = Some (r, st')" by simp
    then have "walked provider ?st1 r st'"
      by (rule forEntries_walked[rotated]) (rule Suc.IH)
    with walked_call_fulfilled[OF Inr] show ?thesis by (rule walked_trans)
  qed
qed

subsection \<open>The calls of the batches\<close>

lemma providerEvents_started:
  "providerEvents (concat (map (\<lambda>file. [OnProgress (g file), DownloadFileCall file]) batch)) =
     map DownloadFileCall batch"
  by (induction batch) simp_all

lemma providerEvents_settled:
  "providerEvents (map DownloadFileSettled xs) = map DownloadFileSettled xs"
  by (induction xs) simp_all

lemma providerEvents_batchEvents:
  "providerEvents (batchEvents latency batch) = batchEvents latency batch"
  by (induction batch) (simp_all add: batchEvents_def providerEvents_settled providerEvents_def
      isProgress_def)

lemma firstRejection_Some: "firstRejection rs = Some err \<Longrightarrow> Inl err \<in> set rs"
  by (induction rs rule: firstRejection.induct) auto

lemma firstRejection_None: "firstRejection rs = None \<Longrightarrow> r \<in> set rs \<Longrightarrow> \<not> isl r"
  by (induction rs rule: firstRejection.induct) auto

lemma allFulfilled_Inr: "allFulfilled rs = Inr vs \<Longrightarrow> map Inr vs = rs"
  by (induction rs arbitrary: vs rule: allFulfilled.induct) (auto split: sum.splits)

lemma allFulfilled_Inl: "allFulfilled rs = Inl err \<Longrightarrow> Inl err \<in> set rs"
  by (induction rs rule: allFulfilled.induct) (auto split: sum.splits)

lemma set_settleOrder [simp]: "set (settleOrder latency batch) = set batch"
  by (simp add: settleOrder_def)

lemma length_settleOrder [simp]: "length (settleOrder latency batch) = length batch"
  by (simp add: settleOrder_def)

lemma downloadOne_Inl:
  "downloadOne provider config f = Inl err \<longleftrightarrow> downloadFile provider f config = Inl err"
  by (simp add: downloadOne_def split: sum.splits)

lemma downloadBatch_effect:
  assumes "downloadBatch provider config latency files batch st = (res, st')"
  shows "providerEvents (trace st') = providerEvents (trace st) @ batchEvents latency batch"
    and "results st' = results st"
    and "case res of
           Inr rs \<Rightarrow> map Inr rs = map (downloadOne provider config) batch
         | Inl err \<Rightarrow> (\<exists>f \<in> set batch. downloadFile provider f config = Inl err)"
proof -
  let ?outcomes = "map (downloadOne provider config) (settleOrder latency batch)"
  from assms show "providerEvents (trace st') = providerEvents (trace st) @ batchEvents latency batch"
    by (auto simp: downloadBatch_def Let_def batchEvents_def providerEvents_started
        providerEvents_settled split: option.splits)
  from assms show "results st' = results st"
    by (auto simp: downloadBatch_def Let_def split: option.splits)
  show "case res of
           Inr rs \<Rightarrow> map Inr rs = map (downloadOne provider config) batch
         | Inl err \<Rightarrow> (\<exists>f \<in> set batch. downloadFile provider f config = Inl err)"
  proof (cases "firstRejection ?outcomes")
    case (Some err)
    with assms have "res = Inl err" by (simp add: downloadBatch_def Let_def)
    moreover from firstRejection_Some[OF Some]
    obtain f where "f \<in> set batch" "downloadOne provider config f = Inl err" by auto
    ultimately show ?thesis by (auto simp: downloadOne_Inl)
  next
    case None
    with assms have res: "res = allFulfilled (map (downloadOne provider config) batch)"
      by (simp add: downloadBatch_def Let_def)
    show ?thesis
    proof (cases res)
      case (Inl err)
      with res allFulfilled_Inl[of "map (downloadOne provider config) batch" err]
      obtain f where "f \<in> set batch" "downloadOne provider config f = Inl err" by auto
      with Inl show ?thesis by (auto simp: downloadOne_Inl)
    next
      case (Inr rs)
      with res have "allFulfilled (map (downloadOne provider config) batch) = Inr rs" by simp
      from allFulfilled_Inr[OF this] Inr show ?thesis by simp
    qed
  qed
qed

lemma chunks_Nil [simp]: "chunks n [] = []"
  by (simp add: chunks.simps)

lemma chunks_step: "0 < n \<Longrightarrow> xs \<noteq> [] \<Longrightarrow> chunks n xs = take n xs # chunks n (drop n xs)"
  by (subst chunks.simps) simp

lemma chunks_length: "b \<in> set (chunks n xs) \<Longrightarrow> length b \<le> n"
proof (induction n xs rule: chunks.induct)
  case (1 n xs)
  show ?case
  proof (cases "n = 0 \<or> xs = []")
    case True
    with "1.prems" show ?thesis by (simp add: chunks.simps)
  next
    case False
    with "1.prems" have "b = take n xs \<or> b \<in> set (chunks n (drop n xs))"
      by (simp add: chunks_step)
    with "1.IH" False show ?thesis by auto
  qed
qed

lemma concat_chunks: "0 < n \<Longrightarrow> concat (chunks n xs) = xs"
proof (induction n xs rule: chunks.induct)
  case (1 n xs)
  show ?case
  proof (cases "xs = []")
    case True
    then show ?thesis by simp
  next
    case False
    with "1.prems" "1.IH" show ?thesis by (simp add: chunks_step)
  qed
qed

lemma batched_done: "batched provider config latency [] st None st"
  unfolding batched_def by (rule exI[of _ "[]"]) simp

lemma processBatches_batched:
  "processBatches provider config latency files i st = (r, st') \<Longrightarrow>
   batched provider config latency (drop i files) st r st'"
proof (induction provider config latency files i st arbitrary: r st' rule: processBatches.induct)
  case (1 provider config latency files i st)
  show ?case
  proof (cases "i < length files")
    case False
    with "1.prems" have "r = None" "st' = st" by (simp_all add: processBatches.simps)
    with False show ?thesis by (simp add: batched_done)
  next
    case True
    let ?rest = "drop i files"
    let ?batch = "slice files i (i + CONCURRENT_DOWNLOADS)"
    have batch: "?batch = take CONCURRENT_DOWNLOADS ?rest" by (simp add: slice_def)
    from True have ne: "?rest \<noteq> []" by simp
    have ch: "chunks CONCURRENT_DOWNLOADS ?rest =
                ?batch # chunks CONCURRENT_DOWNLOADS (drop (i + CONCURRENT_DOWNLOADS) files)"
      using chunks_step[OF _ ne, of CONCURRENT_DOWNLOADS] batch
      by (simp add: CONCURRENT_DOWNLOADS_def add.commute)
    obtain res s1 where db: "downloadBatch provider config latency files ?batch st = (res, s1)"
      by (cases "downloadBatch provider config latency files ?batch st")
    note eff = downloadBatch_effect[OF db]
    show ?thesis
    proof (cases res)
      case (Inl err)
      with "1.prems" True db have "r = Some err" "st' = s1"
        by (simp_all add: processBatches.simps[of provider config latency files i st])
      moreover from eff(3) Inl obtain f where "f \<in> set ?batch"
        "downloadFile provider f config = Inl err" by auto
      ultimately show ?thesis
        unfolding batched_def using eff(1) ch
        by (intro exI[of _ "[?batch]"]) auto
    next
      case (Inr rs)
      let ?s2 = "s1\<lparr>results := results s1 @ rs\<rparr>"
      from "1.prems" True db Inr
      have "processBatches provider config latency files (i + CONCURRENT_DOWNLOADS) ?s2 = (r, st')"
        by (simp add: processBatches.simps[of provider config latency files i st])
      with "1.IH"[OF True db[symmetric] Inr]
      have "batched provider config latency (drop (i + CONCURRENT_DOWNLOADS) files) ?s2 r st'"
        by blast
      then obtain bs where
        pre: "prefix bs (chunks CONCURRENT_DOWNLOADS (drop (i + CONCURRENT_DOWNLOADS) files))"
        and ev: "providerEvents (trace st') =
                   providerEvents (trace ?s2) @ concat (map (batchEvents latency) bs)"
        and rr: "case r of
              None \<Rightarrow>
                bs = chunks CONCURRENT_DOWNLOADS (drop (i + CONCURRENT_DOWNLOADS) files) \<and>
                (\<exists>rs'. results st' = results ?s2 @ rs' \<and>
                      map Inr rs' = map (downloadOne provider config)
                                      (drop (i + CONCURRENT_DOWNLOADS) files))
            | Some err \<Rightarrow>
                (\<exists>f \<in> set (concat bs). downloadFile provider f config = Inl err)"
        by (auto simp: batched_def)
      from eff(3) Inr have rs: "map Inr rs = map (downloadOne provider config) ?batch" by simp
      have "drop CONCURRENT_DOWNLOADS ?rest = drop (i + CONCURRENT_DOWNLOADS) files"
        by (simp add: add.commute)
      then have split: "?batch @ drop (i + CONCURRENT_DOWNLOADS) files = ?rest"
        using batch append_take_drop_id[of CONCURRENT_DOWNLOADS ?rest] by simp
      have p: "prefix (?batch # bs) (chunks CONCURRENT_DOWNLOADS ?rest)"
        using pre ch by simp
      have e: "providerEvents (trace st') =
                 providerEvents (trace st) @ concat (map (batchEvents latency) (?batch # bs))"
        using ev eff(1) by simp
      show ?thesis
      proof (cases r)
        case None
        with rr obtain rs' where
          all: "bs = chunks CONCURRENT_DOWNLOADS (drop (i + CONCURRENT_DOWNLOADS) files)"
          and res': "results st' = results ?s2 @ rs'"
          and m': "map Inr rs' = map (downloadOne provider config)
                                      (drop (i + CONCURRENT_DOWNLOADS) files)" by auto
        have "results st' = results st @ (rs @ rs')" using res' eff(2) by simp
        moreover have "map Inr (rs @ rs') = map (downloadOne provider config) ?rest"
          using rs m' split by (metis map_append)
        ultimately show ?thesis
          unfolding batched_def using None p e all ch
          by (intro exI[of _ "?batch # bs"]) auto
      next
        case (Some err)
        with rr obtain f where "f \<in> set (concat bs)" "downloadFile provider f config = Inl err"
          by auto
        then show ?thesis
          unfolding batched_def using Some p e
          by (intro exI[of _ "?batch # bs"]) auto
      qed
    qed
  qed
qed

subsection \<open>The shape of a run\<close>

lemma zipLoop_fold:
  "fst (zipLoop files i n archive tr) =
     foldl (\<lambda>a f. zip_file (relativePath f) (content f) a) archive files"
  by (induction files arbitrary: i archive tr) simp_all

lemma zipLoop_events: "providerEvents (snd (zipLoop files i n archive tr)) = providerEvents tr"
  by (induction files arbitrary: i archive tr) simp_all

lemma createAndDownloadZip_result:
  assumes "createAndDownloadZip rs fname tr = (z, tr')"
  shows "zipEntries z = archiveOf rs \<and> filename z = fname \<and>
         providerEvents tr' = providerEvents tr"
proof -
  let ?tr0 = "tr @ [OnProgress \<lparr>phase = zipping, current = 0, total = length rs,
                                currentFile = None\<rparr>]"
  obtain a t where zl: "zipLoop rs 0 (length rs) Map.empty ?tr0 = (a, t)"
    by (cases "zipLoop rs 0 (length rs) Map.empty ?tr0")
  with assms have z: "z = \<lparr>filename = fname, zipEntries = generateAsync a\<rparr>" and t: "tr' = t"
    by (simp_all add: createAndDownloadZip_def)
  from zl zipLoop_fold[of rs 0 "length rs" Map.empty ?tr0] have "generateAsync a = archiveOf rs"
    by (simp add: archiveOf_def)
  moreover from zl zipLoop_events[of rs 0 "length rs" Map.empty ?tr0]
  have "providerEvents t = providerEvents tr" by simp
  ultimately show ?thesis using z t by simp
qed

lemma initialWalk_events [simp]: "providerEvents (effects initialWalk) = []"
  by (simp add: initialWalk_def)

text \<open>
  Every run that ends is of one of four kinds: the traversal has thrown; the traversal
  has found no file; a batch has been rejected; or all batches were fulfilled and the
  archive was made. In each, the calls of the provider are the listings of the
  traversal followed by the events of the batches dispatched.
\<close>

lemma run_shape:
  assumes "downloadDirectory fuel latency provider config = Some (r, log)"
  shows "\<exists>wr st cs bs.
      collectFilesRecursively fuel provider config (FetchConfig.path config) initialWalk
        = Some (wr, st) \<and>
      providerEvents log = map FetchContentsCall cs @ concat (map (batchEvents latency) bs) \<and>
      prefix bs (chunks CONCURRENT_DOWNLOADS (collectedFiles st)) \<and>
      (case wr of
         Some err \<Rightarrow>
           r = Inl err \<and> bs = [] \<and> cs \<noteq> [] \<and> fetchContents provider (last cs) = Inl err \<and>
           (\<forall>c \<in> set (butlast cs). \<not> isl (fetchContents provider c))
       | None \<Rightarrow>
           (\<forall>c \<in> set cs. \<not> isl (fetchContents provider c)) \<and>
           (case r of
              Inr z \<Rightarrow>
                collectedFiles st \<noteq> [] \<and>
                bs = chunks CONCURRENT_DOWNLOADS (collectedFiles st) \<and>
                filename z = dirNameOf config @ ''.zip'' \<and>
                (\<exists>rs. map Inr rs = map (downloadOne provider config) (collectedFiles st) \<and>
                      zipEntries z = archiveOf rs)
            | Inl err \<Rightarrow>
                (collectedFiles st = [] \<and> bs = [] \<and>
                 err = DownloadErr createEmptyDirectoryError) \<or>
                (\<exists>f \<in> set (concat bs). downloadFile provider f config = Inl err)))"
proof -
  from assms obtain r0 tr where cf: "collectFiles fuel latency provider config = Some (r0, tr)"
    by (auto simp: downloadDirectory_def split: option.splits)
  then obtain wr st where
    w: "collectFilesRecursively fuel provider config (FetchConfig.path config) initialWalk
          = Some (wr, st)"
    by (auto simp: collectFiles_def split: option.splits)
  from collectFilesRecursively_walked[OF w] obtain cs where
    cs: "providerEvents (effects st) = map FetchContentsCall cs"
    and wcs: "case wr of
                None \<Rightarrow> (\<forall>c \<in> set cs. \<not> isl (fetchContents provider c))
              | Some err \<Rightarrow> cs \<noteq> [] \<and> fetchContents provider (last cs) = Inl err \<and>
                  (\<forall>c \<in> set (butlast cs). \<not> isl (fetchContents provider c))"
    by (auto simp: walked_def)
  show ?thesis
  proof (cases wr)
    case (Some err)
    with cf w have "r0 = Inl err" "tr = effects st" by (simp_all add: collectFiles_def)
    with assms cf have "r = Inl err" "log = effects st" by (simp_all add: downloadDirectory_def)
    with w cs wcs Some show ?thesis
      by (intro exI[of _ wr] exI[of _ st] exI[of _ cs] exI[of _ "[]"]) simp
  next
    case None
    show ?thesis
    proof (cases "collectedFiles st = []")
      case True
      with cf w None have "r0 = Inl (DownloadErr createEmptyDirectoryError)" "tr = effects st"
        by (simp_all add: collectFiles_def)
      with assms cf have "r = Inl (DownloadErr createEmptyDirectoryError)" "log = effects st"
        by (simp_all add: downloadDirectory_def)
      with w cs wcs None True show ?thesis
        by (intro exI[of _ wr] exI[of _ st] exI[of _ cs] exI[of _ "[]"]) simp
    next
      case False
      obtain pr ds where pb: "processBatches provider config latency (collectedFiles st) 0
          \<lparr>results = [], completed = 0, trace = effects st\<rparr> = (pr, ds)"
        by (cases "processBatches provider config latency (collectedFiles st) 0
          \<lparr>results = [], completed = 0, trace = effects st\<rparr>")
      from processBatches_batched[OF pb]
      have "batched provider config latency (collectedFiles st)
              \<lparr>results = [], completed = 0, trace = effects st\<rparr> pr ds" by simp
      then obtain bs where
        pre: "prefix bs (chunks CONCURRENT_DOWNLOADS (collectedFiles st))"
        and ev0: "providerEvents (trace ds) =
                   providerEvents (trace \<lparr>results = [], completed = 0, trace = effects st\<rparr>) @
                   concat (map (batchEvents latency) bs)"
        and prr0: "case pr of
              None \<Rightarrow>
                bs = chunks CONCURRENT_DOWNLOADS (collectedFiles st) \<and>
                (\<exists>rs. results ds =
                        results \<lparr>results = [], completed = 0, trace = effects st\<rparr> @ rs \<and>
                      map Inr rs = map (downloadOne provider config) (collectedFiles st))
            | Some err \<Rightarrow>
                (\<exists>f \<in> set (concat bs). downloadFile provider f config = Inl err)"
        unfolding batched_def by auto
      from ev0 cs have ev: "providerEvents (trace ds) =
                   map FetchContentsCall cs @ concat (map (batchEvents latency) bs)" by simp
      from prr0 have prr: "case pr of
              None \<Rightarrow>
                bs = chunks CONCURRENT_DOWNLOADS (collectedFiles st) \<and>
                map Inr (results ds) = map (downloadOne provider config) (collectedFiles st)
            | Some err \<Rightarrow>
                (\<exists>f \<in> set (concat bs). downloadFile provider f config = Inl err)"
        by (cases pr) auto
      show ?thesis
      proof (cases pr)
        case (Some err)
        with cf w None False pb have "r0 = Inl err" "tr = trace ds"
          by (simp_all add: collectFiles_def)
        with assms cf have "r = Inl err" "log = trace ds" by (simp_all add: downloadDirectory_def)
        with w pre ev prr wcs None Some show ?thesis
          by (intro exI[of _ wr] exI[of _ st] exI[of _ cs] exI[of _ bs]) auto
      next
        case pn: None
        with cf w None False pb have r0: "r0 = Inr (results ds)" "tr = trace ds"
          by (simp_all add: collectFiles_def)
        obtain z tr' where
          zd: "createAndDownloadZip (results ds) (dirNameOf config @ ''.zip'') (trace ds) = (z, tr')"
          by (cases "createAndDownloadZip (results ds) (dirNameOf config @ ''.zip'') (trace ds)")
        with assms cf r0 have rz: "r = Inr z" "log = tr'" by (simp_all add: downloadDirectory_def)
        from createAndDownloadZip_result[OF zd]
        have z: "zipEntries z = archiveOf (results ds)" "filename z = dirNameOf config @ ''.zip''"
          "providerEvents tr' = providerEvents (trace ds)" by simp_all
        from prr pn have all: "bs = chunks CONCURRENT_DOWNLOADS (collectedFiles st)"
          and m: "map Inr (results ds) = map (downloadOne provider config) (collectedFiles st)"
          by auto
        from w pre ev wcs None rz z all m False show ?thesis
          by (intro exI[of _ wr] exI[of _ st] exI[of _ cs] exI[of _ bs]) auto
      qed
    qed
  qed
qed

subsection \<open>A failure aborts the operation\<close>



lemma mem_listingCalls:
  "FetchContentsCall c \<in> set (map FetchContentsCall cs) \<longleftrightarrow> c \<in> set cs"
  "DownloadFileCall f \<notin> set (map FetchContentsCall cs)"
  by auto






text \<open>Every repository tree is nested within the number of its levels.\<close>

lemma served_tree_nesting:
  "serves listing config nodes \<Longrightarrow> listingLevels nodes \<le> fuel \<Longrightarrow>
   nestingWithin fuel listing config"
proof (induction fuel arbitrary: config nodes)
  case 0
  then show ?case by (simp add: listingLevels_def)
next
  case (Suc fuel)
  from Suc.prems(1) have l: "listing config = Inr (map entryOf nodes)"
    and srv: "\<forall>n \<in> set nodes. served listing config n"
    by (simp_all add: serves_def)
  have "type (entryOf n) = ''dir'' \<longrightarrow>
          nestingWithin fuel listing (config\<lparr>FetchConfig.path := path (entryOf n)\<rparr>)"
    if n: "n \<in> set nodes" for n
  proof (cases n)
    case (Leaf e)
    with srv n show ?thesis by auto
  next
    case (Folder e children)
    with srv n have "serves listing (config\<lparr>FetchConfig.path := path e\<rparr>) children"
      by (auto simp: serves_def)
    moreover have "levels (Folder e children) \<le> fuel"
      using levels_le_foldr[OF n] Suc.prems(2) Folder by (simp add: listingLevels_def)
    then have "listingLevels children \<le> fuel" by (simp add: listingLevels_def)
    ultimately show ?thesis using Suc.IH Folder by simp
  qed
  with l show ?case by (simp add: list_all_iff)
qed


subsection \<open>The run on the example repository\<close>

lemma example_walk:
  "collectFilesRecursively 3 exampleProvider exampleConfig ''root'' initialWalk =
     Some (None, \<lparr>collectedFiles = exampleFiles, effects = exampleWalkLog\<rparr>)"
  by (simp add: numeral_3_eq_3 exampleProvider_def exampleListing_def exampleConfig_def
      fileEntry_def dirEntry_def reportFetching_def initialWalk_def exampleWalkLog_def
      exampleFiles_def)

lemma example_relativePaths:
  "map (relativePathOf exampleConfig) exampleFiles = [''a.txt'', ''sub/b.txt'', ''sub/nested/c.txt'']"
  by (simp add: exampleFiles_def relativePathOf_def exampleConfig_def fileEntry_def
      startsWith_def sliceFrom_def)

lemma example_downloads:
  "map (downloadOne exampleProvider exampleConfig) exampleFiles = map Inr exampleResults"
  using example_relativePaths
  by (simp add: exampleFiles_def exampleResults_def downloadOne_def exampleProvider_def
      exampleContent_def fileEntry_def)

lemma example_settleOrder:
  "settleOrder exampleLatency exampleFiles =
     [fileEntry ''b.txt'' ''root/sub/b.txt'', fileEntry ''c.txt'' ''root/sub/nested/c.txt'',
      fileEntry ''a.txt'' ''root/a.txt'']"
  by (simp add: settleOrder_def exampleLatency_def exampleFiles_def fileEntry_def)

lemma example_batches:
  "processBatches exampleProvider exampleConfig exampleLatency exampleFiles 0
     \<lparr>results = [], completed = 0, trace = tr\<rparr> =
   (None, \<lparr>results = exampleResults, completed = 3,
           trace = tr @ exampleCallsLog @ exampleSettledLog\<rparr>)"
proof -
  have len: "length exampleFiles = 3" by (simp add: exampleFiles_def)
  have sl: "slice exampleFiles 0 6 = exampleFiles"
    by (simp add: slice_def len)
  have out: "map (downloadOne exampleProvider exampleConfig) (settleOrder exampleLatency exampleFiles)
       = [Inr (exampleResults ! 1), Inr (exampleResults ! 2), Inr (exampleResults ! 0)]"
  proof -
    have "map (downloadOne exampleProvider exampleConfig) (settleOrder exampleLatency exampleFiles)
            = map (downloadOne exampleProvider exampleConfig)
                [fileEntry ''b.txt'' ''root/sub/b.txt'',
                 fileEntry ''c.txt'' ''root/sub/nested/c.txt'',
                 fileEntry ''a.txt'' ''root/a.txt'']"
      by (simp only: example_settleOrder)
    also have "\<dots> = [Inr (exampleResults ! 1), Inr (exampleResults ! 2), Inr (exampleResults ! 0)]"
      using example_downloads by (simp add: exampleFiles_def exampleResults_def)
    finally show ?thesis .
  qed
  have started: "concat (map (\<lambda>file.
            [OnProgress \<lparr>phase = downloading, current = 0, total = 3,
                         currentFile = Some (FileEntry.name file)\<rparr>,
             DownloadFileCall file]) exampleFiles) = exampleCallsLog"
    by (simp add: exampleFiles_def exampleCallsLog_def fileEntry_def)
  have af: "allFulfilled (map Inr exampleResults) = Inr exampleResults"
    by (simp add: exampleResults_def)
  have db: "downloadBatch exampleProvider exampleConfig exampleLatency exampleFiles exampleFiles
              \<lparr>results = [], completed = 0, trace = tr\<rparr> =
            (Inr exampleResults,
             \<lparr>results = [], completed = 3, trace = tr @ exampleCallsLog @ exampleSettledLog\<rparr>)"
    by (simp add: downloadBatch_def Let_def out len started example_downloads af)
       (simp add: example_settleOrder exampleSettledLog_def)
  show ?thesis
    by (subst processBatches.simps) (simp add: len sl db processBatches.simps[of _ _ _ _ 6]
        CONCURRENT_DOWNLOADS_def)
qed

lemma example_zip:
  "createAndDownloadZip exampleResults fname tr =
     (\<lparr>filename = fname, zipEntries = archiveOf exampleResults\<rparr>, tr @ exampleZipLog)"
  by (simp add: createAndDownloadZip_def exampleResults_def exampleZipLog_def archiveOf_def)

lemma example_run:
  "downloadDirectory 3 exampleLatency exampleProvider exampleConfig =
     Some (Inr \<lparr>filename = ''root.zip'', zipEntries = archiveOf exampleResults\<rparr>,
           exampleWalkLog @ exampleCallsLog @ exampleSettledLog @ exampleZipLog)"
proof -
  have p: "FetchConfig.path exampleConfig = ''root''" by (simp add: exampleConfig_def)
  have n: "collectedFiles \<lparr>collectedFiles = exampleFiles, effects = exampleWalkLog\<rparr> \<noteq> []"
    by (simp add: exampleFiles_def)
  have d: "dirNameOf exampleConfig = ''root''"
    by (simp add: dirNameOf_def exampleConfig_def)
  have cf: "collectFiles 3 exampleLatency exampleProvider exampleConfig =
              Some (Inr exampleResults, exampleWalkLog @ exampleCallsLog @ exampleSettledLog)"
    using n by (simp only: collectFiles_def p example_walk) (simp add: example_batches)
  show ?thesis
    by (simp only: downloadDirectory_def cf) (simp add: example_zip d)
qed

subsection \<open>Runs that fail\<close>








subsection \<open>Downloads outstanding\<close>

lemma downloadsCalled_append [simp]:
  "downloadsCalled (xs @ ys) = downloadsCalled xs + downloadsCalled ys"
  by (simp add: downloadsCalled_def)

lemma downloadsSettled_append [simp]:
  "downloadsSettled (xs @ ys) = downloadsSettled xs + downloadsSettled ys"
  by (simp add: downloadsSettled_def)

lemma downloads_of_calls [simp]:
  "downloadsCalled (map DownloadFileCall fs) = length fs"
  "downloadsSettled (map DownloadFileCall fs) = 0"
  by (induction fs) (simp_all add: downloadsCalled_def downloadsSettled_def)

lemma downloads_of_settled [simp]:
  "downloadsCalled (map DownloadFileSettled fs) = 0"
  "downloadsSettled (map DownloadFileSettled fs) = length fs"
  by (induction fs) (simp_all add: downloadsCalled_def downloadsSettled_def)

lemma downloads_of_listings [simp]:
  "downloadsCalled (map FetchContentsCall cs) = 0"
  "downloadsSettled (map FetchContentsCall cs) = 0"
  by (induction cs) (simp_all add: downloadsCalled_def downloadsSettled_def)

lemma downloads_of_providerEvents:
  "downloadsCalled (providerEvents tr) = downloadsCalled tr"
  "downloadsSettled (providerEvents tr) = downloadsSettled tr"
  by (induction tr)
     (auto simp: downloadsCalled_def downloadsSettled_def providerEvents_def isProgress_def
       split: effect.splits)

lemma downloads_of_batchEvents [simp]:
  "downloadsCalled (batchEvents latency b) = length b"
  "downloadsSettled (batchEvents latency b) = length b"
  by (simp_all add: batchEvents_def)

text \<open>Within one batch: calls first, then settlements, never more of these than of those.\<close>

lemma batch_prefix_bound:
  assumes "length b \<le> n" and "prefix q (batchEvents latency b)"
  shows "downloadsSettled q \<le> downloadsCalled q \<and> downloadsCalled q \<le> downloadsSettled q + n"
proof -
  from assms(2) consider
    (calling) "prefix q (map DownloadFileCall b)"
  | (settling) us where "q = map DownloadFileCall b @ us"
      "prefix us (map DownloadFileSettled (settleOrder latency b))"
    by (auto simp: batchEvents_def prefix_append)
  then show ?thesis
  proof cases
    case calling
    then obtain b' where "prefix b' b" "q = map DownloadFileCall b'"
      using prefix_map_rightE by blast
    with assms(1) prefix_length_le[of b' b] show ?thesis by simp
  next
    case settling
    from settling(2) obtain s' where "prefix s' (settleOrder latency b)"
      "us = map DownloadFileSettled s'"
      using prefix_map_rightE by blast
    with settling(1) assms(1) prefix_length_le[of s' "settleOrder latency b"]
    show ?thesis by simp
  qed
qed

lemma batches_prefix_bound:
  assumes "\<forall>b \<in> set bs. length b \<le> n"
  shows "prefix q (concat (map (batchEvents latency) bs)) \<Longrightarrow>
         downloadsSettled q \<le> downloadsCalled q \<and> downloadsCalled q \<le> downloadsSettled q + n"
  using assms
proof (induction bs arbitrary: q)
  case Nil
  then show ?case by (simp add: downloadsCalled_def downloadsSettled_def)
next
  case (Cons b bs)
  from Cons.prems(1) consider
    (inside) "prefix q (batchEvents latency b)"
  | (beyond) us where "q = batchEvents latency b @ us"
      "prefix us (concat (map (batchEvents latency) bs))"
    by (auto simp: prefix_append)
  then show ?case
  proof cases
    case inside
    with Cons.prems(2) show ?thesis using batch_prefix_bound[of b n q latency] by simp
  next
    case beyond
    with Cons.IH[of us] Cons.prems(2) show ?thesis by simp
  qed
qed

lemma run_prefix_bound:
  assumes "\<forall>b \<in> set bs. length b \<le> n"
    and "prefix q (map FetchContentsCall cs @ concat (map (batchEvents latency) bs))"
  shows "downloadsSettled q \<le> downloadsCalled q \<and> downloadsCalled q \<le> downloadsSettled q + n"
proof -
  from assms(2) consider
    (listing) "prefix q (map FetchContentsCall cs)"
  | (batches) us where "q = map FetchContentsCall cs @ us"
      "prefix us (concat (map (batchEvents latency) bs))"
    by (auto simp: prefix_append)
  then show ?thesis
  proof cases
    case listing
    then obtain cs' where "q = map FetchContentsCall cs'"
      using prefix_map_rightE by blast
    then show ?thesis by simp
  next
    case batches
    with batches_prefix_bound[OF assms(1), of us latency] show ?thesis by simp
  qed
qed

text \<open>
  C9. In every run of \<^verbatim>\<open>downloadDirectory\<close> that ends, at every moment (after every
  prefix of its effects) the downloads called and not yet settled are at most
  \<^verbatim>\<open>CONCURRENT_DOWNLOADS\<close>, which is 6. The calls of the provider in the run are the listings
  followed by the events of the batches dispatched; these batches are the first groups
  of at most 6 of the collected files, in order, and the events of a batch (all its
  downloads called, then all of them settled) come before those of the next.
\<close>

theorem downloads_outstanding_bounded:
  assumes "downloadDirectory fuel latency provider config = Some (r, log)"
  shows "CONCURRENT_DOWNLOADS = 6 \<and>
         (\<forall>p. prefix p log \<longrightarrow>
            downloadsSettled p \<le> downloadsCalled p \<and>
            downloadsCalled p \<le> downloadsSettled p + CONCURRENT_DOWNLOADS) \<and>
         (\<exists>cs bs st wr.
            providerEvents log = map FetchContentsCall cs @ concat (map (batchEvents latency) bs) \<and>
            collectFilesRecursively fuel provider config (FetchConfig.path config) initialWalk
              = Some (wr, st) \<and>
            prefix bs (chunks CONCURRENT_DOWNLOADS (collectedFiles st)) \<and>
            (\<forall>b \<in> set bs. length b \<le> CONCURRENT_DOWNLOADS))"
proof -
  from run_shape[OF assms] obtain wr st cs bs where
    w: "collectFilesRecursively fuel provider config (FetchConfig.path config) initialWalk
          = Some (wr, st)"
    and ev: "providerEvents log = map FetchContentsCall cs @ concat (map (batchEvents latency) bs)"
    and pre: "prefix bs (chunks CONCURRENT_DOWNLOADS (collectedFiles st))"
    by blast
  have len: "\<forall>b \<in> set bs. length b \<le> CONCURRENT_DOWNLOADS"
    using pre set_mono_prefix[OF pre] chunks_length by blast
  have bound: "downloadsSettled p \<le> downloadsCalled p \<and>
               downloadsCalled p \<le> downloadsSettled p + CONCURRENT_DOWNLOADS"
    if "prefix p log" for p
  proof -
    from that have "prefix (providerEvents p) (providerEvents log)"
      unfolding providerEvents_def by (rule filter_mono_prefix)
    with ev run_prefix_bound[OF len, of "providerEvents p" cs latency]
    show ?thesis by (simp add: downloads_of_providerEvents)
  qed
  from w ev pre len bound show ?thesis
    by (auto simp: CONCURRENT_DOWNLOADS_def)
qed

theorem downloads_outstanding_bounded_witness:
  "downloadDirectory 3 exampleLatency exampleProvider exampleConfig =
     Some (Inr \<lparr>filename = ''root.zip'', zipEntries = archiveOf exampleResults\<rparr>,
           exampleWalkLog @ exampleCallsLog @ exampleSettledLog @ exampleZipLog) \<and>
   prefix (exampleWalkLog @ exampleCallsLog)
     (exampleWalkLog @ exampleCallsLog @ exampleSettledLog @ exampleZipLog) \<and>
   downloadsCalled (exampleWalkLog @ exampleCallsLog) = 3 \<and>
   downloadsSettled (exampleWalkLog @ exampleCallsLog) = 0 \<and>
   downloadsCalled (exampleWalkLog @ exampleCallsLog)
     \<le> downloadsSettled (exampleWalkLog @ exampleCallsLog) + CONCURRENT_DOWNLOADS"
proof -
  have p: "prefix (exampleWalkLog @ exampleCallsLog)
     (exampleWalkLog @ exampleCallsLog @ exampleSettledLog @ exampleZipLog)" by simp
  have c: "downloadsCalled (exampleWalkLog @ exampleCallsLog) = 3"
    by (simp add: downloadsCalled_def exampleWalkLog_def exampleCallsLog_def)
  have s: "downloadsSettled (exampleWalkLog @ exampleCallsLog) = 0"
    by (simp add: downloadsSettled_def exampleWalkLog_def exampleCallsLog_def)
  from downloads_outstanding_bounded[OF example_run] p
  have b: "downloadsCalled (exampleWalkLog @ exampleCallsLog)
     \<le> downloadsSettled (exampleWalkLog @ exampleCallsLog) + CONCURRENT_DOWNLOADS"
    by blast
  show ?thesis
    by (rule conjI[OF example_run conjI[OF p conjI[OF c conjI[OF s b]]]])
qed

subsection \<open>The results of the downloads and the archive\<close>

lemma results_of_downloads:
  "map Inr rs = map (downloadOne provider config) files \<Longrightarrow>
   list_all2 (\<lambda>f r. relativePath r = relativePathOf config f \<and>
                     downloadFile provider f config = Inr (content r)) files rs"
proof (induction files arbitrary: rs)
  case Nil
  then show ?case by simp
next
  case (Cons f files)
  then obtain r rs' where rs: "rs = r # rs'" by (cases rs) auto
  with Cons.prems have h: "downloadOne provider config f = Inr r"
    and t: "map Inr rs' = map (downloadOne provider config) files" by auto
  from h have "relativePath r = relativePathOf config f \<and>
               downloadFile provider f config = Inr (content r)"
    by (auto simp: downloadOne_def split: sum.splits)
  with Cons.IH[OF t] rs show ?case by simp
qed

lemma results_relativePaths:
  "list_all2 (\<lambda>f r. relativePath r = relativePathOf config f \<and> Q f r) files rs \<Longrightarrow>
   map relativePath rs = map (relativePathOf config) files"
  by (induction files rs rule: list_all2_induct) simp_all

lemma collectFiles_results:
  assumes "collectFiles fuel latency provider config = Some (Inr tasks, log)"
  shows "\<exists>st. collectFilesRecursively fuel provider config (FetchConfig.path config) initialWalk
                 = Some (None, st) \<and>
              map Inr tasks = map (downloadOne provider config) (collectedFiles st)"
proof -
  from assms obtain st where
    w: "collectFilesRecursively fuel provider config (FetchConfig.path config) initialWalk
          = Some (None, st)"
    and ne: "collectedFiles st \<noteq> []"
    by (auto simp: collectFiles_def split: option.splits prod.splits if_splits)
  obtain pr ds where pb: "processBatches provider config latency (collectedFiles st) 0
          \<lparr>results = [], completed = 0, trace = effects st\<rparr> = (pr, ds)"
    by (cases "processBatches provider config latency (collectedFiles st) 0
          \<lparr>results = [], completed = 0, trace = effects st\<rparr>")
  with assms w ne have pr: "pr = None" and t: "tasks = results ds"
    by (auto simp: collectFiles_def split: option.splits)
  from processBatches_batched[OF pb]
  have "batched provider config latency (collectedFiles st)
          \<lparr>results = [], completed = 0, trace = effects st\<rparr> pr ds" by simp
  with pr t have "map Inr tasks = map (downloadOne provider config) (collectedFiles st)"
    by (auto simp: batched_def)
  with w show ?thesis by blast
qed

subsection \<open>The entries of the archive\<close>

lemma lastIndexOf_at: "lastIndexOf c s = Some i \<Longrightarrow> i < length s \<and> s ! i = c"
  by (induction s arbitrary: i) (auto split: option.splits if_splits)

lemma forceTrailingSlash_ends [simp]: "endsWithSlash (forceTrailingSlash p)"
  by (simp add: forceTrailingSlash_def endsWithSlash_def)

lemma forceTrailingSlash_idem [simp]: "forceTrailingSlash (forceTrailingSlash p) = forceTrailingSlash p"
  by (simp add: forceTrailingSlash_def endsWithSlash_def)

lemma parentFolder_prefix:
  assumes "parentFolder p \<noteq> []"
  shows "prefix (forceTrailingSlash (parentFolder p)) p"
proof -
  define p' where "p' = (if endsWithSlash p then butlast p else p)"
  from assms obtain i where i: "lastIndexOf CHR ''/'' p' = Some i"
    and par: "parentFolder p = take i p'"
    by (auto simp: parentFolder_def p'_def Let_def split: option.splits if_splits)
  from lastIndexOf_at[OF i] have lt: "i < length p'" and at: "p' ! i = CHR ''/''" by simp_all
  have "take i p' @ ''/'' = take (Suc i) p'"
    using lt at by (simp add: take_Suc_conv_app_nth)
  then have "prefix (forceTrailingSlash (take i p')) p'"
    by (auto simp: forceTrailingSlash_def take_is_prefix)
  moreover have "prefix p' p"
    by (simp add: p'_def prefixeq_butlast)
  ultimately show ?thesis using par by (metis prefix_order.trans)
qed

text \<open>
  What \<^verbatim>\<open>fileAdd\<close> and \<^verbatim>\<open>folderAdd\<close> do to the entries: the entry of the name is set; every
  other entry that was there stays as it was; and an entry that is new under another
  name is a folder whose name ends with a slash and begins the name added.
\<close>

lemma fileAdd_folderAdd_entries:
  "fileAdd nm data dir files (if dir then forceTrailingSlash nm else nm) =
     Some (if dir then ZipFolder else ZipFile (case data of None \<Rightarrow> [] | Some d \<Rightarrow> d)) \<and>
   (\<forall>n v. n \<noteq> (if dir then forceTrailingSlash nm else nm) \<longrightarrow>
      (files n = Some v \<longrightarrow> fileAdd nm data dir files n = Some v) \<and>
      (fileAdd nm data dir files n = Some v \<longrightarrow>
         files n = Some v \<or>
         (v = ZipFolder \<and> endsWithSlash n \<and>
          prefix n (if dir then forceTrailingSlash nm else nm))))"
  "\<forall>n v. (files' n = Some v \<longrightarrow> folderAdd nm' files' n = Some v) \<and>
         (folderAdd nm' files' n = Some v \<longrightarrow>
            files' n = Some v \<or>
            (v = ZipFolder \<and> endsWithSlash n \<and> prefix n (forceTrailingSlash nm')))"
proof (induction nm data dir files and nm' files' rule: fileAdd_folderAdd.induct)
  case (1 nm data dir files)
  define target where "target = (if dir then forceTrailingSlash nm else nm)"
  define parent where "parent = parentFolder target"
  define base where "base = (if parent \<noteq> [] then folderAdd parent files else files)"
  have fa: "fileAdd nm data dir files =
              base(target \<mapsto>
                (if dir then ZipFolder else ZipFile (case data of None \<Rightarrow> [] | Some d \<Rightarrow> d)))"
    by (simp add: fileAdd.simps[of nm data dir files] Let_def target_def parent_def base_def)
  have keep: "files n = Some v \<longrightarrow> base n = Some v" for n v
  proof (cases "parent = []")
    case True
    then show ?thesis by (simp add: base_def)
  next
    case False
    with "1.IH"[of target parent] show ?thesis
      by (simp add: base_def target_def parent_def)
  qed
  have new: "base n = Some v \<longrightarrow>
               files n = Some v \<or> (v = ZipFolder \<and> endsWithSlash n \<and> prefix n target)" for n v
  proof (cases "parent = []")
    case True
    then show ?thesis by (simp add: base_def)
  next
    case False
    then have "prefix (forceTrailingSlash parent) target"
      unfolding parent_def by (rule parentFolder_prefix)
    moreover from False "1.IH"[of target parent]
    have "base n = Some v \<longrightarrow>
            files n = Some v \<or>
            (v = ZipFolder \<and> endsWithSlash n \<and> prefix n (forceTrailingSlash parent))"
      by (simp add: base_def target_def parent_def)
    ultimately show ?thesis by (metis prefix_order.trans)
  qed
  show ?case
    unfolding target_def[symmetric] fa using keep new by simp
next
  case (2 nm files)
  show ?case
  proof (cases "files (forceTrailingSlash nm) \<noteq> None")
    case True
    then show ?thesis by (simp add: folderAdd.simps[of nm files] Let_def)
  next
    case False
    then have fo: "folderAdd nm files = fileAdd (forceTrailingSlash nm) None True files"
      by (simp add: folderAdd.simps[of nm files] Let_def)
    from "2.IH"[of "forceTrailingSlash nm"] False
    have ih: "fileAdd (forceTrailingSlash nm) None True files (forceTrailingSlash nm) =
                Some ZipFolder"
      and oth: "\<forall>n v. n \<noteq> forceTrailingSlash nm \<longrightarrow>
        (files n = Some v \<longrightarrow> fileAdd (forceTrailingSlash nm) None True files n = Some v) \<and>
        (fileAdd (forceTrailingSlash nm) None True files n = Some v \<longrightarrow>
           files n = Some v \<or>
           (v = ZipFolder \<and> endsWithSlash n \<and> prefix n (forceTrailingSlash nm)))"
      by simp_all
    show ?thesis
    proof (intro allI)
      fix n v
      show "(files n = Some v \<longrightarrow> folderAdd nm files n = Some v) \<and>
            (folderAdd nm files n = Some v \<longrightarrow>
               files n = Some v \<or>
               (v = ZipFolder \<and> endsWithSlash n \<and> prefix n (forceTrailingSlash nm)))"
      proof (cases "n = forceTrailingSlash nm")
        case True
        with False ih show ?thesis by (simp add: fo)
      next
        case ne: False
        with oth show ?thesis by (simp add: fo)
      qed
    qed
  qed
qed

lemma zip_file_entry: "zip_file nm data files nm = Some (ZipFile data)"
  using fileAdd_folderAdd_entries(1)[of nm "Some data" False files] by (simp add: zip_file_def)

lemma zip_file_keeps: "n \<noteq> nm \<Longrightarrow> files n = Some v \<Longrightarrow> zip_file nm data files n = Some v"
  using fileAdd_folderAdd_entries(1)[of nm "Some data" False files] by (simp add: zip_file_def)

lemma zip_file_new:
  "n \<noteq> nm \<Longrightarrow> zip_file nm data files n = Some v \<Longrightarrow>
   files n = Some v \<or> (v = ZipFolder \<and> endsWithSlash n \<and> prefix n nm)"
  using fileAdd_folderAdd_entries(1)[of nm "Some data" False files] by (simp add: zip_file_def)

lemma zip_files_kept:
  "a n = Some v \<Longrightarrow> n \<notin> relativePath ` set rs \<Longrightarrow>
   foldl (\<lambda>archive f. zip_file (relativePath f) (content f) archive) a rs n = Some v"
proof (induction rs arbitrary: a)
  case Nil
  then show ?case by simp
next
  case (Cons r rs)
  from Cons.prems have "n \<noteq> relativePath r" by auto
  with Cons.prems(1) have "zip_file (relativePath r) (content r) a n = Some v"
    by (simp add: zip_file_keeps)
  with Cons.IH Cons.prems(2) show ?case by simp
qed

lemma zip_files_last:
  assumes "relativePath r \<notin> relativePath ` set ys"
  shows "foldl (\<lambda>archive f. zip_file (relativePath f) (content f) archive) a (xs @ r # ys)
           (relativePath r) = Some (ZipFile (content r))"
proof -
  let ?step = "\<lambda>archive f. zip_file (relativePath f) (content f) archive"
  have "foldl ?step a (xs @ r # ys) = foldl ?step (?step (foldl ?step a xs) r) ys" by simp
  moreover have "?step (foldl ?step a xs) r (relativePath r) = Some (ZipFile (content r))"
    by (rule zip_file_entry)
  ultimately show ?thesis using zip_files_kept[OF _ assms] by simp
qed

lemma zip_files_file_origin:
  "foldl (\<lambda>archive f. zip_file (relativePath f) (content f) archive) a rs n = Some (ZipFile d) \<Longrightarrow>
   a n = Some (ZipFile d) \<or> (\<exists>r \<in> set rs. relativePath r = n \<and> content r = d)"
proof (induction rs arbitrary: a)
  case Nil
  then show ?case by simp
next
  case (Cons r rs)
  from Cons.IH[of "zip_file (relativePath r) (content r) a"] Cons.prems
  consider "zip_file (relativePath r) (content r) a n = Some (ZipFile d)"
    | "\<exists>r' \<in> set rs. relativePath r' = n \<and> content r' = d" by auto
  then show ?case
  proof cases
    case 1
    show ?thesis
    proof (cases "n = relativePath r")
      case True
      with 1 have "content r = d" by (simp add: zip_file_entry)
      with True show ?thesis by simp
    next
      case False
      from zip_file_new[OF False 1] show ?thesis by simp
    qed
  next
    case 2
    then show ?thesis by auto
  qed
qed

lemma zip_files_folder_origin:
  "foldl (\<lambda>archive f. zip_file (relativePath f) (content f) archive) a rs n = Some ZipFolder \<Longrightarrow>
   a n = Some ZipFolder \<or> (endsWithSlash n \<and> (\<exists>r \<in> set rs. prefix n (relativePath r)))"
proof (induction rs arbitrary: a)
  case Nil
  then show ?case by simp
next
  case (Cons r rs)
  from Cons.IH[of "zip_file (relativePath r) (content r) a"] Cons.prems
  consider "zip_file (relativePath r) (content r) a n = Some ZipFolder"
    | "endsWithSlash n \<and> (\<exists>r' \<in> set rs. prefix n (relativePath r'))" by auto
  then show ?case
  proof cases
    case 1
    show ?thesis
    proof (cases "n = relativePath r")
      case True
      with 1 show ?thesis by (simp add: zip_file_entry)
    next
      case False
      from zip_file_new[OF False 1] show ?thesis by auto
    qed
  next
    case 2
    then show ?thesis by auto
  qed
qed

lemma archiveOf_last:
  "relativePath r \<noteq> [] \<Longrightarrow> relativePath r \<notin> relativePath ` set ys \<Longrightarrow>
   archiveOf (xs @ r # ys) (relativePath r) = Some (ZipFile (content r))"
  by (simp add: archiveOf_def generateAsync_def zip_files_last del: foldl_append)

lemma archiveOf_file_origin:
  "archiveOf rs n = Some (ZipFile d) \<Longrightarrow> \<exists>r \<in> set rs. relativePath r = n \<and> content r = d"
  using zip_files_file_origin[of Map.empty rs n d]
  by (auto simp: archiveOf_def generateAsync_def split: if_splits)

lemma archiveOf_folder_origin:
  "archiveOf rs n = Some ZipFolder \<Longrightarrow>
   endsWithSlash n \<and> (\<exists>r \<in> set rs. prefix n (relativePath r))"
  using zip_files_folder_origin[of Map.empty rs n]
  by (auto simp: archiveOf_def generateAsync_def split: if_splits)

lemma concat_prefix_subset: "prefix bs cs \<Longrightarrow> set (concat bs) \<subseteq> set (concat cs)"
  by (auto simp: prefix_def)

lemma processBatches_fulfilled:
  assumes "\<forall>f \<in> set files. \<not> isl (downloadFile provider f config)"
  shows "\<exists>ds. processBatches provider config latency files i st = (None, ds)"
proof -
  obtain pr ds where pb: "processBatches provider config latency files i st = (pr, ds)"
    by (cases "processBatches provider config latency files i st")
  have "pr = None"
  proof (cases pr)
    case None
    then show ?thesis .
  next
    case (Some err)
    with processBatches_batched[OF pb] obtain bs f where
      pre: "prefix bs (chunks CONCURRENT_DOWNLOADS (drop i files))"
      and f: "f \<in> set (concat bs)" and e: "downloadFile provider f config = Inl err"
      by (auto simp: batched_def)
    have "concat (chunks CONCURRENT_DOWNLOADS (drop i files)) = drop i files"
      by (rule concat_chunks) (simp add: CONCURRENT_DOWNLOADS_def)
    with concat_prefix_subset[OF pre] f have "f \<in> set (drop i files)" by auto
    then have "f \<in> set files" by (rule in_set_dropD)
    with assms e show ?thesis by auto
  qed
  with pb show ?thesis by blast
qed

lemma downloadDirectory_of_tree:
  assumes "serves (fetchContents provider) config nodes" and "listingLevels nodes \<le> fuel"
    and "allFiles nodes \<noteq> []"
    and "\<forall>f \<in> set (allFiles nodes). \<not> isl (downloadFile provider f config)"
  shows "\<exists>z log st.
           downloadDirectory fuel latency provider config = Some (Inr z, log) \<and>
           collectFilesRecursively fuel provider config (FetchConfig.path config) initialWalk
             = Some (None, st) \<and>
           collectedFiles st = allFiles nodes"
proof -
  from collectFilesRecursively_tree[OF assms(1,2), of "FetchConfig.path config" initialWalk]
  obtain st where
    w: "collectFilesRecursively fuel provider config (FetchConfig.path config) initialWalk
          = Some (None, st)"
    and fs: "collectedFiles st = allFiles nodes"
    by (auto simp: initialWalk_def)
  from processBatches_fulfilled[of "collectedFiles st" provider config latency 0
      "\<lparr>results = [], completed = 0, trace = effects st\<rparr>"] assms(4) fs
  obtain ds where pb: "processBatches provider config latency (collectedFiles st) 0
      \<lparr>results = [], completed = 0, trace = effects st\<rparr> = (None, ds)" by auto
  from w pb assms(3) fs
  have cf: "collectFiles fuel latency provider config = Some (Inr (results ds), trace ds)"
    by (simp add: collectFiles_def)
  obtain z tr' where
    "createAndDownloadZip (results ds) (dirNameOf config @ ''.zip'') (trace ds) = (z, tr')"
    by (cases "createAndDownloadZip (results ds) (dirNameOf config @ ''.zip'') (trace ds)")
  with cf have "downloadDirectory fuel latency provider config = Some (Inr z, tr')"
    by (simp add: downloadDirectory_def)
  with w fs show ?thesis by blast
qed

lemma archive_of_ended_run:
  assumes "downloadDirectory fuel latency provider config = Some (Inr z, log)"
  shows "\<exists>st rs.
      collectFilesRecursively fuel provider config (FetchConfig.path config) initialWalk
        = Some (None, st) \<and>
      zipEntries z = archiveOf rs \<and>
      list_all2 (\<lambda>f r. relativePath r = relativePathOf config f \<and>
                        downloadFile provider f config = Inr (content r))
        (collectedFiles st) rs \<and>
      (\<forall>i < length (collectedFiles st).
         relativePathOf config (collectedFiles st ! i) \<noteq> [] \<and>
         (\<forall>j. i < j \<and> j < length (collectedFiles st) \<longrightarrow>
              relativePathOf config (collectedFiles st ! j) \<noteq>
              relativePathOf config (collectedFiles st ! i)) \<longrightarrow>
         (\<exists>data. downloadFile provider (collectedFiles st ! i) config = Inr data \<and>
                 zipEntries z (relativePathOf config (collectedFiles st ! i)) =
                   Some (ZipFile data))) \<and>
      (\<forall>n data. zipEntries z n = Some (ZipFile data) \<longrightarrow>
         (\<exists>f \<in> set (collectedFiles st).
            relativePathOf config f = n \<and> downloadFile provider f config = Inr data)) \<and>
      (\<forall>n. zipEntries z n = Some ZipFolder \<longrightarrow>
         endsWithSlash n \<and>
         (\<exists>f \<in> set (collectedFiles st). prefix n (relativePathOf config f))) \<and>
      (distinct (map (relativePathOf config) (collectedFiles st)) \<and>
       [] \<notin> set (map (relativePathOf config) (collectedFiles st)) \<longrightarrow>
         {n. \<exists>data. zipEntries z n = Some (ZipFile data)} =
           set (map (relativePathOf config) (collectedFiles st)) \<and>
         card {n. \<exists>data. zipEntries z n = Some (ZipFile data)} = length (collectedFiles st))"
proof -
  from run_shape[OF assms] obtain wr st cs bs where
    w: "collectFilesRecursively fuel provider config (FetchConfig.path config) initialWalk
          = Some (wr, st)"
    and sh: "case wr of
         Some err \<Rightarrow>
           Inr z = Inl err \<and> bs = [] \<and> cs \<noteq> [] \<and> fetchContents provider (last cs) = Inl err \<and>
           (\<forall>c \<in> set (butlast cs). \<not> isl (fetchContents provider c))
       | None \<Rightarrow>
           (\<forall>c \<in> set cs. \<not> isl (fetchContents provider c)) \<and>
           collectedFiles st \<noteq> [] \<and>
           bs = chunks CONCURRENT_DOWNLOADS (collectedFiles st) \<and>
           filename z = dirNameOf config @ ''.zip'' \<and>
           (\<exists>rs. map Inr rs = map (downloadOne provider config) (collectedFiles st) \<and>
                 zipEntries z = archiveOf rs)"
    by (auto split: option.splits)
  from sh have wn: "wr = None" by (cases wr) auto
  with sh obtain rs where
    m: "map Inr rs = map (downloadOne provider config) (collectedFiles st)"
    and a: "zipEntries z = archiveOf rs" by auto
  let ?files = "collectedFiles st"
  let ?rel = "relativePathOf config"
  from results_of_downloads[OF m]
  have l2: "list_all2 (\<lambda>f r. relativePath r = ?rel f \<and>
                        downloadFile provider f config = Inr (content r)) ?files rs" .
  then have len: "length rs = length ?files" by (simp add: list_all2_lengthD)
  have at: "relativePath (rs ! k) = ?rel (?files ! k) \<and>
            downloadFile provider (?files ! k) config = Inr (content (rs ! k))"
    if "k < length ?files" for k
    using l2 that by (simp add: list_all2_conv_all_nth)
  have own: "\<exists>data. downloadFile provider (?files ! i) config = Inr data \<and>
                 zipEntries z (?rel (?files ! i)) = Some (ZipFile data)"
    if i: "i < length ?files" and ne: "?rel (?files ! i) \<noteq> []"
      and later: "\<forall>j. i < j \<and> j < length ?files \<longrightarrow> ?rel (?files ! j) \<noteq> ?rel (?files ! i)"
    for i
  proof -
    from i len have split: "rs = take i rs @ rs ! i # drop (Suc i) rs"
      by (simp add: id_take_nth_drop)
    have "relativePath (rs ! i) \<notin> relativePath ` set (drop (Suc i) rs)"
    proof
      assume "relativePath (rs ! i) \<in> relativePath ` set (drop (Suc i) rs)"
      then obtain k where k: "k < length (drop (Suc i) rs)"
        and e: "relativePath (drop (Suc i) rs ! k) = relativePath (rs ! i)"
        by (auto simp: in_set_conv_nth)
      from k len have j: "Suc i + k < length ?files" by simp
      from k have "drop (Suc i) rs ! k = rs ! (Suc i + k)" by simp
      with e at[OF j] at[OF i] have "?rel (?files ! (Suc i + k)) = ?rel (?files ! i)" by simp
      with later j show False by simp
    qed
    moreover from ne at[OF i] have "relativePath (rs ! i) \<noteq> []" by simp
    ultimately have "archiveOf (take i rs @ rs ! i # drop (Suc i) rs) (relativePath (rs ! i)) =
                       Some (ZipFile (content (rs ! i)))"
      by (intro archiveOf_last)
    with split have "archiveOf rs (relativePath (rs ! i)) = Some (ZipFile (content (rs ! i)))"
      by simp
    with a at[OF i] show ?thesis by simp
  qed
  have origin: "\<exists>f \<in> set ?files. ?rel f = n \<and> downloadFile provider f config = Inr data"
    if "zipEntries z n = Some (ZipFile data)" for n data
  proof -
    from that a archiveOf_file_origin[of rs n data]
    obtain r where "r \<in> set rs" and r: "relativePath r = n" "content r = data" by auto
    then obtain k where k: "k < length rs" "rs ! k = r" by (auto simp: in_set_conv_nth)
    with len have kf: "k < length ?files" by simp
    from at[OF kf] k r have "?rel (?files ! k) = n"
      "downloadFile provider (?files ! k) config = Inr data" by simp_all
    with kf show ?thesis by (intro bexI[of _ "?files ! k"]) simp_all
  qed
  have folders: "endsWithSlash n \<and> (\<exists>f \<in> set ?files. prefix n (?rel f))"
    if "zipEntries z n = Some ZipFolder" for n
  proof -
    from that a archiveOf_folder_origin[of rs n]
    obtain r where e: "endsWithSlash n" and "r \<in> set rs" and p: "prefix n (relativePath r)"
      by auto
    then obtain k where k: "k < length rs" "rs ! k = r" by (auto simp: in_set_conv_nth)
    with len have kf: "k < length ?files" by simp
    from at[OF kf] k p have "prefix n (?rel (?files ! k))" by simp
    with kf e show ?thesis by (intro conjI bexI[of _ "?files ! k"]) simp_all
  qed
  have count: "{n. \<exists>data. zipEntries z n = Some (ZipFile data)} = set (map ?rel ?files) \<and>
         card {n. \<exists>data. zipEntries z n = Some (ZipFile data)} = length ?files"
    if d: "distinct (map ?rel ?files)" and ne: "[] \<notin> set (map ?rel ?files)"
  proof -
    have "{n. \<exists>data. zipEntries z n = Some (ZipFile data)} = set (map ?rel ?files)"
    proof (intro equalityI subsetI)
      fix n assume "n \<in> {n. \<exists>data. zipEntries z n = Some (ZipFile data)}"
      then obtain data where "zipEntries z n = Some (ZipFile data)" by blast
      from origin[OF this] show "n \<in> set (map ?rel ?files)" by auto
    next
      fix n assume "n \<in> set (map ?rel ?files)"
      then obtain i where i: "i < length ?files" and n: "n = ?rel (?files ! i)"
        by (auto simp: in_set_conv_nth)
      from i ne have "?rel (?files ! i) \<noteq> []" by (metis nth_mem imageI set_map)
      moreover have "\<forall>j. i < j \<and> j < length ?files \<longrightarrow> ?rel (?files ! j) \<noteq> ?rel (?files ! i)"
      proof (intro allI impI notI)
        fix j assume j: "i < j \<and> j < length ?files" and e: "?rel (?files ! j) = ?rel (?files ! i)"
        from j have jl: "j < length (map ?rel ?files)" by simp
        from i have il: "i < length (map ?rel ?files)" by simp
        from e i j have "map ?rel ?files ! j = map ?rel ?files ! i" by simp
        with nth_eq_iff_index_eq[OF d jl il] have "j = i" by blast
        with j show False by simp
      qed
      ultimately obtain data where "zipEntries z (?rel (?files ! i)) = Some (ZipFile data)"
        using own[OF i] by blast
      with n show "n \<in> {n. \<exists>data. zipEntries z n = Some (ZipFile data)}" by blast
    qed
    moreover have "card (set (map ?rel ?files)) = length (map ?rel ?files)"
      using d by (rule distinct_card)
    ultimately show ?thesis by simp
  qed
  show ?thesis
  proof (intro exI[of _ st] exI[of _ rs] conjI allI impI)
    show "collectFilesRecursively fuel provider config (FetchConfig.path config) initialWalk
            = Some (None, st)" using w wn by simp
    show "zipEntries z = archiveOf rs" by (rule a)
    show "list_all2 (\<lambda>f r. relativePath r = ?rel f \<and>
                        downloadFile provider f config = Inr (content r)) ?files rs" by (rule l2)
  next
    fix i
    assume "i < length ?files"
      and "?rel (?files ! i) \<noteq> [] \<and>
           (\<forall>j. i < j \<and> j < length ?files \<longrightarrow> ?rel (?files ! j) \<noteq> ?rel (?files ! i))"
    then show "\<exists>data. downloadFile provider (?files ! i) config = Inr data \<and>
                 zipEntries z (?rel (?files ! i)) = Some (ZipFile data)"
      using own by blast
  next
    fix n data assume "zipEntries z n = Some (ZipFile data)"
    then show "\<exists>f \<in> set ?files. ?rel f = n \<and> downloadFile provider f config = Inr data"
      by (rule origin)
  next
    fix n assume f: "zipEntries z n = Some ZipFolder"
    from folders[OF f] show "endsWithSlash n" by blast
    from folders[OF f] show "\<exists>f \<in> set ?files. prefix n (?rel f)" by blast
  next
    assume h: "distinct (map ?rel ?files) \<and> [] \<notin> set (map ?rel ?files)"
    then have d: "distinct (map ?rel ?files)" and ne: "[] \<notin> set (map ?rel ?files)" by blast+
    from count[OF d ne]
    show "{n. \<exists>data. zipEntries z n = Some (ZipFile data)} = set (map ?rel ?files)" by blast
    from count[OF d ne]
    show "card {n. \<exists>data. zipEntries z n = Some (ZipFile data)} = length ?files" by blast
  qed
qed

text \<open>
  C1, as the code has it. For a repository tree that holds a file, within the recursion
  budget, all of whose files the provider delivers, \<^verbatim>\<open>downloadDirectory\<close> ends with an
  archive, and the files it has discovered are the files of the tree. In every run that
  makes an archive, the traversal has completed and \<^verbatim>\<open>zip.file\<close> has been called once for every discovered file, in order,
  with the file's relative path and exactly the bytes \<^verbatim>\<open>downloadFile\<close> returned for it.
  A discovered file whose relative path is not empty and is not the relative path of a
  file discovered after it has its entry in the archive, a file entry under its relative
  path that holds exactly the bytes \<^verbatim>\<open>downloadFile\<close> returned for it. Every file entry of
  the archive is under the relative path of a discovered file and holds exactly the
  bytes \<^verbatim>\<open>downloadFile\<close> returned for a discovered file of that relative path. Every other
  entry of the archive is a folder entry, whose name ends with a slash and begins the
  relative path of a discovered file. When the relative paths of the discovered files
  are pairwise distinct and none is empty, the names of the file entries are exactly
  these relative paths, one file entry for every discovered file.
\<close>

theorem archive_holds_downloaded_bytes:
  "(serves (fetchContents provider) config nodes \<and> listingLevels nodes \<le> fuel \<and>
    allFiles nodes \<noteq> [] \<and>
    (\<forall>f \<in> set (allFiles nodes). \<not> isl (downloadFile provider f config)) \<longrightarrow>
      (\<exists>z log st.
         downloadDirectory fuel latency provider config = Some (Inr z, log) \<and>
         collectFilesRecursively fuel provider config (FetchConfig.path config) initialWalk
           = Some (None, st) \<and>
         collectedFiles st = allFiles nodes)) \<and>
   (\<forall>z log. downloadDirectory fuel latency provider config = Some (Inr z, log) \<longrightarrow>
      (\<exists>st rs.
      collectFilesRecursively fuel provider config (FetchConfig.path config) initialWalk
        = Some (None, st) \<and>
      zipEntries z = archiveOf rs \<and>
      list_all2 (\<lambda>f r. relativePath r = relativePathOf config f \<and>
                        downloadFile provider f config = Inr (content r))
        (collectedFiles st) rs \<and>
      (\<forall>i < length (collectedFiles st).
         relativePathOf config (collectedFiles st ! i) \<noteq> [] \<and>
         (\<forall>j. i < j \<and> j < length (collectedFiles st) \<longrightarrow>
              relativePathOf config (collectedFiles st ! j) \<noteq>
              relativePathOf config (collectedFiles st ! i)) \<longrightarrow>
         (\<exists>data. downloadFile provider (collectedFiles st ! i) config = Inr data \<and>
                 zipEntries z (relativePathOf config (collectedFiles st ! i)) =
                   Some (ZipFile data))) \<and>
      (\<forall>n data. zipEntries z n = Some (ZipFile data) \<longrightarrow>
         (\<exists>f \<in> set (collectedFiles st).
            relativePathOf config f = n \<and> downloadFile provider f config = Inr data)) \<and>
      (\<forall>n. zipEntries z n = Some ZipFolder \<longrightarrow>
         endsWithSlash n \<and>
         (\<exists>f \<in> set (collectedFiles st). prefix n (relativePathOf config f))) \<and>
      (distinct (map (relativePathOf config) (collectedFiles st)) \<and>
       [] \<notin> set (map (relativePathOf config) (collectedFiles st)) \<longrightarrow>
         {n. \<exists>data. zipEntries z n = Some (ZipFile data)} =
           set (map (relativePathOf config) (collectedFiles st)) \<and>
         card {n. \<exists>data. zipEntries z n = Some (ZipFile data)} = length (collectedFiles st))))"
proof (intro conjI allI impI)
  assume "serves (fetchContents provider) config nodes \<and> listingLevels nodes \<le> fuel \<and>
    allFiles nodes \<noteq> [] \<and>
    (\<forall>f \<in> set (allFiles nodes). \<not> isl (downloadFile provider f config))"
  then show "\<exists>z log st.
         downloadDirectory fuel latency provider config = Some (Inr z, log) \<and>
         collectFilesRecursively fuel provider config (FetchConfig.path config) initialWalk
           = Some (None, st) \<and>
         collectedFiles st = allFiles nodes"
    using downloadDirectory_of_tree by blast
next
  fix z log assume "downloadDirectory fuel latency provider config = Some (Inr z, log)"
  then show "\<exists>st rs.
      collectFilesRecursively fuel provider config (FetchConfig.path config) initialWalk
        = Some (None, st) \<and>
      zipEntries z = archiveOf rs \<and>
      list_all2 (\<lambda>f r. relativePath r = relativePathOf config f \<and>
                        downloadFile provider f config = Inr (content r))
        (collectedFiles st) rs \<and>
      (\<forall>i < length (collectedFiles st).
         relativePathOf config (collectedFiles st ! i) \<noteq> [] \<and>
         (\<forall>j. i < j \<and> j < length (collectedFiles st) \<longrightarrow>
              relativePathOf config (collectedFiles st ! j) \<noteq>
              relativePathOf config (collectedFiles st ! i)) \<longrightarrow>
         (\<exists>data. downloadFile provider (collectedFiles st ! i) config = Inr data \<and>
                 zipEntries z (relativePathOf config (collectedFiles st ! i)) =
                   Some (ZipFile data))) \<and>
      (\<forall>n data. zipEntries z n = Some (ZipFile data) \<longrightarrow>
         (\<exists>f \<in> set (collectedFiles st).
            relativePathOf config f = n \<and> downloadFile provider f config = Inr data)) \<and>
      (\<forall>n. zipEntries z n = Some ZipFolder \<longrightarrow>
         endsWithSlash n \<and>
         (\<exists>f \<in> set (collectedFiles st). prefix n (relativePathOf config f))) \<and>
      (distinct (map (relativePathOf config) (collectedFiles st)) \<and>
       [] \<notin> set (map (relativePathOf config) (collectedFiles st)) \<longrightarrow>
         {n. \<exists>data. zipEntries z n = Some (ZipFile data)} =
           set (map (relativePathOf config) (collectedFiles st)) \<and>
         card {n. \<exists>data. zipEntries z n = Some (ZipFile data)} = length (collectedFiles st))"
    by (rule archive_of_ended_run)
qed

lemma example_archive:
  "archiveOf exampleResults =
     [''a.txt'' \<mapsto> ZipFile [97], ''sub/'' \<mapsto> ZipFolder, ''sub/b.txt'' \<mapsto> ZipFile [98, 13, 10],
      ''sub/nested/'' \<mapsto> ZipFolder, ''sub/nested/c.txt'' \<mapsto> ZipFile [99, 0, 255]]"
  by (rule ext)
     (simp add: archiveOf_def exampleResults_def generateAsync_def zip_file_def fileAdd.simps
       folderAdd.simps parentFolder_def forceTrailingSlash_def endsWithSlash_def)

theorem archive_holds_downloaded_bytes_witness:
  "downloadDirectory 3 exampleLatency exampleProvider exampleConfig =
     Some (Inr \<lparr>filename = ''root.zip'', zipEntries = archiveOf exampleResults\<rparr>,
           exampleWalkLog @ exampleCallsLog @ exampleSettledLog @ exampleZipLog) \<and>
   serves (fetchContents exampleProvider) exampleConfig exampleTree \<and>
   listingLevels exampleTree \<le> 3 \<and>
   allFiles exampleTree = exampleFiles \<and>
   list_all (\<lambda>f. \<not> isl (downloadFile exampleProvider f exampleConfig)) exampleFiles \<and>
   (\<exists>z log st.
      downloadDirectory 3 exampleLatency exampleProvider exampleConfig = Some (Inr z, log) \<and>
      collectFilesRecursively 3 exampleProvider exampleConfig (FetchConfig.path exampleConfig)
        initialWalk = Some (None, st) \<and>
      collectedFiles st = allFiles exampleTree) \<and>
   (\<exists>st.
      collectFilesRecursively 3 exampleProvider exampleConfig (FetchConfig.path exampleConfig)
        initialWalk = Some (None, st) \<and>
      collectedFiles st = exampleFiles \<and>
      (\<exists>data. downloadFile exampleProvider (fileEntry ''b.txt'' ''root/sub/b.txt'') exampleConfig
                = Inr data \<and>
              archiveOf exampleResults
                (relativePathOf exampleConfig (fileEntry ''b.txt'' ''root/sub/b.txt''))
                = Some (ZipFile data)) \<and>
      card {n. \<exists>data. archiveOf exampleResults n = Some (ZipFile data)} = length exampleFiles) \<and>
   relativePathOf exampleConfig (fileEntry ''b.txt'' ''root/sub/b.txt'') = ''sub/b.txt'' \<and>
   archiveOf exampleResults ''sub/b.txt'' = Some (ZipFile [98, 13, 10]) \<and>
   archiveOf exampleResults ''sub/'' = Some ZipFolder"
proof -
  have p: "FetchConfig.path exampleConfig = ''root''" by (simp add: exampleConfig_def)
  let ?z = "\<lparr>filename = ''root.zip'', zipEntries = archiveOf exampleResults\<rparr>"
  have served: "serves (fetchContents exampleProvider) exampleConfig exampleTree \<and>
      listingLevels exampleTree \<le> 3 \<and> allFiles exampleTree \<noteq> [] \<and>
      (\<forall>f \<in> set (allFiles exampleTree). \<not> isl (downloadFile exampleProvider f exampleConfig))"
    by (simp add: exampleProvider_def exampleTree_served exampleTree_levels exampleTree_files
        exampleContent_def fileEntry_def)
  note inst = archive_holds_downloaded_bytes[where provider = exampleProvider
      and config = exampleConfig and nodes = exampleTree and fuel = 3 and latency = exampleLatency]
  from mp[OF conjunct1[OF inst] served]
  have ends: "\<exists>z log st.
         downloadDirectory 3 exampleLatency exampleProvider exampleConfig = Some (Inr z, log) \<and>
         collectFilesRecursively 3 exampleProvider exampleConfig (FetchConfig.path exampleConfig)
           initialWalk = Some (None, st) \<and>
         collectedFiles st = allFiles exampleTree" .
  from mp[OF spec[OF spec[OF conjunct2[OF inst]]] example_run] obtain st rs where
    w: "collectFilesRecursively 3 exampleProvider exampleConfig (FetchConfig.path exampleConfig)
          initialWalk = Some (None, st)"
    and own: "\<forall>i < length (collectedFiles st).
         relativePathOf exampleConfig (collectedFiles st ! i) \<noteq> [] \<and>
         (\<forall>j. i < j \<and> j < length (collectedFiles st) \<longrightarrow>
              relativePathOf exampleConfig (collectedFiles st ! j) \<noteq>
              relativePathOf exampleConfig (collectedFiles st ! i)) \<longrightarrow>
         (\<exists>data. downloadFile exampleProvider (collectedFiles st ! i) exampleConfig = Inr data \<and>
                 zipEntries ?z (relativePathOf exampleConfig (collectedFiles st ! i)) =
                   Some (ZipFile data))"
    and count: "distinct (map (relativePathOf exampleConfig) (collectedFiles st)) \<and>
       [] \<notin> set (map (relativePathOf exampleConfig) (collectedFiles st)) \<longrightarrow>
         {n. \<exists>data. zipEntries ?z n = Some (ZipFile data)} =
           set (map (relativePathOf exampleConfig) (collectedFiles st)) \<and>
         card {n. \<exists>data. zipEntries ?z n = Some (ZipFile data)} = length (collectedFiles st)"
    by (elim exE conjE) (rule that; assumption)
  from w have st: "collectedFiles st = exampleFiles"
    by (auto simp: p example_walk simp del: collectFilesRecursively.simps)
  have rel: "map (relativePathOf exampleConfig) (collectedFiles st) =
               [''a.txt'', ''sub/b.txt'', ''sub/nested/c.txt'']"
    by (simp add: st example_relativePaths)
  have b: "exampleFiles ! Suc 0 = fileEntry ''b.txt'' ''root/sub/b.txt''"
    by (simp add: exampleFiles_def)
  have rb: "relativePathOf exampleConfig (fileEntry ''b.txt'' ''root/sub/b.txt'') = ''sub/b.txt''"
    using example_relativePaths by (simp add: exampleFiles_def)
  have rc: "relativePathOf exampleConfig (exampleFiles ! 2) = ''sub/nested/c.txt''"
    using example_relativePaths by (simp add: exampleFiles_def)
  have later: "\<forall>j. 1 < j \<and> j < length exampleFiles \<longrightarrow>
                 relativePathOf exampleConfig (exampleFiles ! j) \<noteq> ''sub/b.txt''"
  proof (intro allI impI)
    fix j assume "1 < j \<and> j < length exampleFiles"
    then have "j = 2" by (simp add: exampleFiles_def)
    then show "relativePathOf exampleConfig (exampleFiles ! j) \<noteq> ''sub/b.txt''"
      by (simp add: rc)
  qed
  have one: "(1::nat) < length (collectedFiles st)" by (simp add: st exampleFiles_def)
  from own[rule_format, OF one] later
  have e: "\<exists>data. downloadFile exampleProvider (fileEntry ''b.txt'' ''root/sub/b.txt'') exampleConfig
                = Inr data \<and>
              archiveOf exampleResults
                (relativePathOf exampleConfig (fileEntry ''b.txt'' ''root/sub/b.txt''))
                = Some (ZipFile data)"
    by (simp add: st b rb)
  have hyp: "distinct (map (relativePathOf exampleConfig) (collectedFiles st)) \<and>
             [] \<notin> set (map (relativePathOf exampleConfig) (collectedFiles st))"
    by (simp only: rel) simp
  from mp[OF count hyp]
  have "card {n. \<exists>data. zipEntries ?z n = Some (ZipFile data)} = length (collectedFiles st)"
    by (rule conjunct2)
  then have c: "card {n. \<exists>data. archiveOf exampleResults n = Some (ZipFile data)} =
                length exampleFiles"
    by (simp add: st)
  have x: "\<exists>st.
      collectFilesRecursively 3 exampleProvider exampleConfig (FetchConfig.path exampleConfig)
        initialWalk = Some (None, st) \<and>
      collectedFiles st = exampleFiles \<and>
      (\<exists>data. downloadFile exampleProvider (fileEntry ''b.txt'' ''root/sub/b.txt'') exampleConfig
                = Inr data \<and>
              archiveOf exampleResults
                (relativePathOf exampleConfig (fileEntry ''b.txt'' ''root/sub/b.txt''))
                = Some (ZipFile data)) \<and>
      card {n. \<exists>data. archiveOf exampleResults n = Some (ZipFile data)} = length exampleFiles"
    by (rule exI[of _ st]) (rule conjI[OF w conjI[OF st conjI[OF e c]]])
  have v: "archiveOf exampleResults ''sub/b.txt'' = Some (ZipFile [98, 13, 10])"
    by (simp add: example_archive)
  have f: "archiveOf exampleResults ''sub/'' = Some ZipFolder"
    by (simp add: example_archive)
  have s1: "serves (fetchContents exampleProvider) exampleConfig exampleTree"
    and s2: "listingLevels exampleTree \<le> 3" using served by blast+
  have s3: "allFiles exampleTree = exampleFiles"
    by (simp add: exampleTree_files exampleFiles_def)
  have s4: "list_all (\<lambda>f. \<not> isl (downloadFile exampleProvider f exampleConfig)) exampleFiles"
    by (simp add: exampleFiles_def exampleProvider_def exampleContent_def fileEntry_def)
  show ?thesis
    by (rule conjI[OF example_run conjI[OF s1 conjI[OF s2 conjI[OF s3 conjI[OF s4
          conjI[OF ends conjI[OF x conjI[OF rb conjI[OF v f]]]]]]]]])
qed

text \<open>
  Where the claim fails. Two discovered files with one relative path leave one file
  entry in the archive, and the bytes of the first file are not in it. And the archive of
  the example repository has, besides the entries of its three files, an entry for each
  of the folders \<^verbatim>\<open>sub/\<close> and \<^verbatim>\<open>sub/nested/\<close>, which are not relative paths of discovered
  files.
\<close>

lemma colliding_archive:
  "archiveOf [\<lparr>relativePath = ''a.txt'', content = [1]\<rparr>, \<lparr>relativePath = ''a.txt'', content = [2]\<rparr>] =
     [''a.txt'' \<mapsto> ZipFile [2]]"
  by (rule ext)
     (simp add: archiveOf_def generateAsync_def zip_file_def fileAdd.simps parentFolder_def
       endsWithSlash_def)

lemma colliding_run:
  "downloadDirectory (Suc 0) exampleLatency collidingProvider exampleConfig =
     Some (Inr \<lparr>filename = ''root.zip'',
                zipEntries = archiveOf [\<lparr>relativePath = ''a.txt'', content = [1]\<rparr>,
                                        \<lparr>relativePath = ''a.txt'', content = [2]\<rparr>]\<rparr>,
           collidingLog)"
  by (simp add: downloadDirectory_def collectFiles_def collidingProvider_def reportFetching_def
      initialWalk_def fileEntry_def processBatches.simps[of _ _ _ _ 0]
      processBatches.simps[of _ _ _ _ 6] slice_def CONCURRENT_DOWNLOADS_def downloadBatch_def
      settleOrder_def exampleLatency_def downloadOne_def Let_def exampleConfig_def
      relativePathOf_def startsWith_def sliceFrom_def createAndDownloadZip_def dirNameOf_def
      archiveOf_def collidingLog_def)

theorem archive_entries_counterexample:
  "fetchContents collidingProvider exampleConfig =
     Inr [fileEntry ''a.txt'' ''root/a.txt'', fileEntry ''a.txt'' ''root//a.txt''] \<and>
   fileEntry ''a.txt'' ''root/a.txt'' \<noteq> fileEntry ''a.txt'' ''root//a.txt'' \<and>
   downloadFile collidingProvider (fileEntry ''a.txt'' ''root/a.txt'') exampleConfig = Inr [1] \<and>
   downloadFile collidingProvider (fileEntry ''a.txt'' ''root//a.txt'') exampleConfig = Inr [2] \<and>
   downloadDirectory (Suc 0) exampleLatency collidingProvider exampleConfig =
     Some (Inr \<lparr>filename = ''root.zip'',
                zipEntries = archiveOf [\<lparr>relativePath = ''a.txt'', content = [1]\<rparr>,
                                        \<lparr>relativePath = ''a.txt'', content = [2]\<rparr>]\<rparr>,
           collidingLog) \<and>
   archiveOf [\<lparr>relativePath = ''a.txt'', content = [1]\<rparr>, \<lparr>relativePath = ''a.txt'', content = [2]\<rparr>] =
     [''a.txt'' \<mapsto> ZipFile [2]] \<and>
   downloadDirectory 3 exampleLatency exampleProvider exampleConfig =
     Some (Inr \<lparr>filename = ''root.zip'', zipEntries = archiveOf exampleResults\<rparr>,
           exampleWalkLog @ exampleCallsLog @ exampleSettledLog @ exampleZipLog) \<and>
   map relativePath exampleResults = [''a.txt'', ''sub/b.txt'', ''sub/nested/c.txt''] \<and>
   archiveOf exampleResults ''sub/'' = Some ZipFolder \<and>
   archiveOf exampleResults ''sub/nested/'' = Some ZipFolder \<and>
   card (dom (archiveOf exampleResults)) = 5"
proof -
  have l: "fetchContents collidingProvider exampleConfig =
     Inr [fileEntry ''a.txt'' ''root/a.txt'', fileEntry ''a.txt'' ''root//a.txt'']"
    by (simp add: collidingProvider_def)
  have d: "fileEntry ''a.txt'' ''root/a.txt'' \<noteq> fileEntry ''a.txt'' ''root//a.txt''"
    by (simp add: fileEntry_def)
  have c1: "downloadFile collidingProvider (fileEntry ''a.txt'' ''root/a.txt'') exampleConfig = Inr [1]"
    and c2: "downloadFile collidingProvider (fileEntry ''a.txt'' ''root//a.txt'') exampleConfig = Inr [2]"
    by (simp_all add: collidingProvider_def fileEntry_def)
  have m: "map relativePath exampleResults = [''a.txt'', ''sub/b.txt'', ''sub/nested/c.txt'']"
    by (simp add: exampleResults_def)
  have f1: "archiveOf exampleResults ''sub/'' = Some ZipFolder"
    and f2: "archiveOf exampleResults ''sub/nested/'' = Some ZipFolder"
    by (simp_all add: example_archive)
  have "dom (archiveOf exampleResults) =
          {''a.txt'', ''sub/'', ''sub/b.txt'', ''sub/nested/'', ''sub/nested/c.txt''}"
    by (auto simp: example_archive split: if_splits)
  then have n: "card (dom (archiveOf exampleResults)) = 5" by simp
  show ?thesis
    by (rule conjI[OF l conjI[OF d conjI[OF c1 conjI[OF c2 conjI[OF colliding_run
          conjI[OF colliding_archive conjI[OF example_run conjI[OF m conjI[OF f1
          conjI[OF f2 n]]]]]]]]]])
qed

subsection \<open>The relative paths of the tasks\<close>

lemma underRoot_path:
  "underRoot root f \<Longrightarrow> root \<noteq> [] \<Longrightarrow> path f = root @ ''/'' @ restOf root f"
  by (auto simp: underRoot_def restOf_def prefix_def)

lemma relativePathOf_underRoot:
  assumes "underRoot root f" and "FetchConfig.path config = root"
  shows "relativePathOf config f = restOf root f"
proof (cases "root = []")
  case True
  with assms show ?thesis
    by (simp add: relativePathOf_no_root stripLeadingSlash_alt underRoot_def restOf_def)
next
  case False
  from underRoot_path[OF assms(1) False] assms(2) False
  have "relativePathOf config f = stripLeadingSlash (restOf root f)"
    using relativePathOf_under[of config f "restOf root f"] by simp
  with assms(1) show ?thesis by (simp add: stripLeadingSlash_alt underRoot_def)
qed

lemma cli_relativePath_underRoot:
  assumes "underRoot root f"
  shows "cli_relativePath root f = restOf root f"
proof (cases "root = []")
  case True
  have "replaceString [] [] (path f) = path f" by (cases "path f") simp_all
  with True assms show ?thesis
    by (simp add: cli_relativePath_def stripLeadingSlash_alt underRoot_def restOf_def)
next
  case False
  from underRoot_path[OF assms False]
  have "cli_relativePath root f = stripLeadingSlash (''/'' @ restOf root f)"
    by (rule cli_relativePath_under)
  then show ?thesis by (simp add: stripLeadingSlash_def)
qed

lemma restOf_inj:
  assumes "underRoot root f" and "underRoot root g" and "restOf root f = restOf root g"
  shows "path f = path g"
proof (cases "root = []")
  case True
  with assms(3) show ?thesis by (simp add: restOf_def)
next
  case False
  with assms underRoot_path[of root f] underRoot_path[of root g] show ?thesis by simp
qed

lemma restOf_distinct:
  assumes "\<forall>f \<in> set files. underRoot root f" and "distinct (map path files)"
  shows "distinct (map (restOf root) files)"
proof -
  from assms(2) have d: "distinct files" and i: "inj_on path (set files)"
    by (simp_all add: distinct_map)
  have "inj_on (restOf root) (set files)"
  proof (rule inj_onI)
    fix f g assume "f \<in> set files" "g \<in> set files" "restOf root f = restOf root g"
    with assms(1) have "path f = path g" using restOf_inj by blast
    with i \<open>f \<in> set files\<close> \<open>g \<in> set files\<close> show "f = g" by (auto dest: inj_onD)
  qed
  with d show ?thesis by (simp add: distinct_map)
qed

lemma restOf_suffix: "suffix (restOf root f) (path f)"
  by (simp add: restOf_def suffix_drop)

lemma cli_forItems_tasks:
  assumes rec: "\<And>c ts. recurse c = Some (Inr ts) \<Longrightarrow> ts = map (cli_task basePath) (map file_e ts)"
  shows "files = map (cli_task basePath) (map file_e files) \<Longrightarrow>
         cli_forItems recurse config basePath items files = Some (Inr out) \<Longrightarrow>
         out = map (cli_task basePath) (map file_e out)"
proof (induction items arbitrary: files)
  case Nil
  then show ?case by simp
next
  case (Cons item rest)
  show ?case
  proof (cases "type item = ''file''")
    case True
    let ?fs = "files @ [cli_task basePath item]"
    from Cons.prems(2) True have "cli_forItems recurse config basePath rest ?fs = Some (Inr out)"
      by (simp add: cli_task_def)
    moreover have "cli_task basePath (file_e (cli_task basePath item)) = cli_task basePath item"
      by (simp add: cli_task_def)
    then have "map (cli_task basePath) (map file_e ?fs) =
                 map (cli_task basePath) (map file_e files) @ [cli_task basePath item]"
      by simp
    with Cons.prems(1) have "?fs = map (cli_task basePath) (map file_e ?fs)"
      by (simp only:)
    ultimately show ?thesis by (rule Cons.IH[rotated])
  next
    case False
    show ?thesis
    proof (cases "type item = ''dir''")
      case True
      with Cons.prems(2) False obtain sub where
        s: "recurse (config\<lparr>FetchConfig.path := path item\<rparr>) = Some (Inr sub)"
        and r: "cli_forItems recurse config basePath rest (files @ sub) = Some (Inr out)"
        by (auto split: option.splits sum.splits)
      from rec[OF s] Cons.prems(1)
      have "files @ sub = map (cli_task basePath) (map file_e (files @ sub))"
        by (metis map_append)
      then show ?thesis using r by (rule Cons.IH)
    next
      case nd: False
      with Cons.prems(2) False
      have "cli_forItems recurse config basePath rest files = Some (Inr out)" by simp
      with Cons.prems(1) show ?thesis by (rule Cons.IH)
    qed
  qed
qed

lemma cli_collectFiles_tasks:
  "cli_collectFiles fuel provider config basePath = Some (Inr tasks) \<Longrightarrow>
   tasks = map (cli_task basePath) (map file_e tasks)"
proof (induction fuel arbitrary: config tasks)
  case 0
  then show ?case by simp
next
  case (Suc fuel)
  from Suc.prems obtain contents where
    "cli_forItems (\<lambda>c. cli_collectFiles fuel provider c basePath) config basePath contents []
       = Some (Inr tasks)"
    by (auto split: sum.splits)
  then show ?case
    using cli_forItems_tasks[of "\<lambda>c. cli_collectFiles fuel provider c basePath" basePath "[]"
        config contents tasks] Suc.IH by simp
qed

text \<open>
  Where the invariant of the relative paths holds. Let the files discovered in an
  operation be under the root path (each path is the root path, a slash and a non-empty
  rest without a leading slash; or, with an empty root path, such a rest), with pairwise
  different paths. Then the relative path of every file is that rest: not empty,
  without a leading slash, an end piece of the provider's path (so with the provider's
  separators), and different from the relative path of every other file; the CLI
  computes the same relative path; and the tasks of the web engine and of the CLI carry
  exactly these relative paths, one task for each file.
\<close>

lemma relative_paths_of_files_under_root:
  assumes "\<forall>f \<in> set files. underRoot root f"
    and "distinct (map path files)"
    and "FetchConfig.path config = root"
  shows "(\<forall>f \<in> set files.
            relativePathOf config f \<noteq> [] \<and> \<not> prefix ''/'' (relativePathOf config f) \<and>
            suffix (relativePathOf config f) (path f) \<and>
            cli_relativePath root f = relativePathOf config f) \<and>
         distinct (map (relativePathOf config) files) \<and>
         (\<forall>fuel latency provider tasks log st.
            collectFiles fuel latency provider config = Some (Inr tasks, log) \<and>
            collectFilesRecursively fuel provider config root initialWalk = Some (None, st) \<and>
            collectedFiles st = files \<longrightarrow>
            map relativePath tasks = map (relativePathOf config) files) \<and>
         (\<forall>fuel cliProvider ctasks.
            cli_collectFiles fuel cliProvider config root = Some (Inr ctasks) \<and>
            map file_e ctasks = files \<longrightarrow>
            map FileToDownload.relativePath ctasks = map (relativePathOf config) files)"
proof (intro conjI)
  have eq: "relativePathOf config f = restOf root f" if "f \<in> set files" for f
    using that assms(1,3) relativePathOf_underRoot by blast
  show "\<forall>f \<in> set files.
            relativePathOf config f \<noteq> [] \<and> \<not> prefix ''/'' (relativePathOf config f) \<and>
            suffix (relativePathOf config f) (path f) \<and>
            cli_relativePath root f = relativePathOf config f"
  proof
    fix f assume f: "f \<in> set files"
    with assms(1) have u: "underRoot root f" by blast
    then have "restOf root f \<noteq> [] \<and> \<not> prefix ''/'' (restOf root f)"
      by (simp add: underRoot_def)
    with eq[OF f] restOf_suffix[of root f] cli_relativePath_underRoot[OF u]
    show "relativePathOf config f \<noteq> [] \<and> \<not> prefix ''/'' (relativePathOf config f) \<and>
            suffix (relativePathOf config f) (path f) \<and>
            cli_relativePath root f = relativePathOf config f" by simp
  qed
  have m: "map (relativePathOf config) files = map (restOf root) files"
    using eq by simp
  show "distinct (map (relativePathOf config) files)"
    unfolding m by (rule restOf_distinct[OF assms(1,2)])
  show "\<forall>fuel latency provider tasks log st.
            collectFiles fuel latency provider config = Some (Inr tasks, log) \<and>
            collectFilesRecursively fuel provider config root initialWalk = Some (None, st) \<and>
            collectedFiles st = files \<longrightarrow>
            map relativePath tasks = map (relativePathOf config) files"
  proof (intro allI impI, elim conjE)
    fix fuel latency provider tasks log st
    assume cf: "collectFiles fuel latency provider config = Some (Inr tasks, log)"
      and w: "collectFilesRecursively fuel provider config root initialWalk = Some (None, st)"
      and fs: "collectedFiles st = files"
    from collectFiles_results[OF cf] w assms(3) fs
    have "map Inr tasks = map (downloadOne provider config) files" by auto
    from results_relativePaths[OF results_of_downloads[OF this]]
    show "map relativePath tasks = map (relativePathOf config) files" .
  qed
  show "\<forall>fuel cliProvider ctasks.
            cli_collectFiles fuel cliProvider config root = Some (Inr ctasks) \<and>
            map file_e ctasks = files \<longrightarrow>
            map FileToDownload.relativePath ctasks = map (relativePathOf config) files"
  proof (intro allI impI, elim conjE)
    fix fuel cliProvider ctasks
    assume c: "cli_collectFiles fuel cliProvider config root = Some (Inr ctasks)"
      and fs: "map file_e ctasks = files"
    from cli_collectFiles_tasks[OF c] fs have "ctasks = map (cli_task root) files" by simp
    then have "map FileToDownload.relativePath ctasks = map (cli_relativePath root) files"
      by (simp add: cli_task_def comp_def)
    also have "\<dots> = map (relativePathOf config) files"
    proof -
      have "cli_relativePath root f = relativePathOf config f" if "f \<in> set files" for f
      proof -
        from that assms(1) have u: "underRoot root f" by blast
        show ?thesis
          using cli_relativePath_underRoot[OF u] relativePathOf_underRoot[OF u assms(3)] by simp
      qed
      then show ?thesis by simp
    qed
    finally show "map FileToDownload.relativePath ctasks = map (relativePathOf config) files" .
  qed
qed

lemma blob_listing:
  "fst (github_fetchContents blobServer blobConfig) = Inr [github_toEntry blobItem]"
  by (simp add: github_fetchContents_def blobServer_def webFetch_def ok_def Let_def)

lemma blob_download:
  "downloadFile (github blobServer) (github_toEntry blobItem) blobConfig = Inr [1, 2, 3]"
  by (simp add: github_def github_downloadFile_def github_downloadRaw_def github_toEntry_def
      blobItem_def blobServer_def webFetch_def ok_def Let_def MAX_FILE_SIZE_def)

lemma single_task_batches:
  assumes "downloadFile provider f config = Inr data"
  shows "processBatches provider config latency [f] 0 \<lparr>results = [], completed = 0, trace = tr\<rparr> =
           (None,
            \<lparr>results = [\<lparr>relativePath = relativePathOf config f, content = data\<rparr>], completed = 1,
             trace = tr @
               [OnProgress \<lparr>phase = downloading, current = 0, total = 1,
                  currentFile = Some (FileEntry.name f)\<rparr>,
                DownloadFileCall f, DownloadFileSettled f]\<rparr>)"
  using assms
  by (simp add: processBatches.simps[of _ _ _ _ 0] processBatches.simps[of _ _ _ _ 6]
      slice_def CONCURRENT_DOWNLOADS_def downloadBatch_def settleOrder_def downloadOne_def Let_def)

lemma single_file_walk:
  assumes "fetchContents provider config = Inr [f]" and "type f = ''file''"
  shows "collectFilesRecursively (Suc fuel) provider config basePath initialWalk =
           Some (None,
             \<lparr>collectedFiles = [f],
              effects = effects initialWalk @
                [FetchContentsCall config,
                 OnProgress \<lparr>phase = fetching, current = 1, total = 1, currentFile = None\<rparr>]\<rparr>)"
  using assms by (simp add: reportFetching_def initialWalk_def)

lemma single_file_tasks:
  assumes "fetchContents provider config = Inr [f]" and "type f = ''file''"
    and "downloadFile provider f config = Inr data"
  shows "\<exists>log. collectFiles (Suc fuel) latency provider config =
           Some (Inr [\<lparr>relativePath = relativePathOf config f, content = data\<rparr>], log)"
  by (simp only: collectFiles_def single_file_walk[OF assms(1,2)])
     (simp add: single_task_batches[OF assms(3)])

lemma archiveOf_empty_name: "archiveOf rs [] = None"
  by (simp add: archiveOf_def generateAsync_def)

lemma archive_of_nameless_file:
  "archiveOf [\<lparr>relativePath = [], content = data\<rparr>] = Map.empty"
  by (rule ext)
     (simp add: archiveOf_def generateAsync_def zip_file_def fileAdd.simps parentFolder_def
       endsWithSlash_def)

text \<open>
  C4 fails on the code for a file whose path is the root path itself, as when the URL
  names a single file: the relative path both engines compute for it is the empty
  string. When the listing of the root is that one file, the operation of the web
  engine ends with one task, whose relative path is empty, and succeeds with an archive
  that has no entry at all; the CLI makes one task with an empty relative path. In no
  run of the web engine does the archive have an entry for such a file.
\<close>

theorem root_file_has_empty_relative_path:
  assumes "FetchConfig.path config \<noteq> []" and "path f = FetchConfig.path config"
  shows "relativePathOf config f = [] \<and>
         cli_relativePath (FetchConfig.path config) f = [] \<and>
         (fetchContents provider config = Inr [f] \<and> type f = ''file'' \<and>
          downloadFile provider f config = Inr data \<longrightarrow>
            (\<exists>log. collectFiles (Suc fuel) latency provider config =
                     Some (Inr [\<lparr>relativePath = [], content = data\<rparr>], log)) \<and>
            (\<exists>z log. downloadDirectory (Suc fuel) latency provider config = Some (Inr z, log) \<and>
                     filename z = dirNameOf config @ ''.zip'' \<and>
                     zipEntries z = Map.empty)) \<and>
         (CliRepoProvider.fetchContents cliProvider config = Inr [f] \<and> type f = ''file'' \<longrightarrow>
            cli_collectFiles (Suc fuel) cliProvider config (FetchConfig.path config) =
              Some (Inr [\<lparr>file_e = f, FileToDownload.relativePath = []\<rparr>])) \<and>
         (\<forall>fuel' latency' provider' z log.
            downloadDirectory fuel' latency' provider' config = Some (Inr z, log) \<longrightarrow>
            zipEntries z (relativePathOf config f) = None)"
proof (intro conjI allI impI)
  show r: "relativePathOf config f = []"
    using assms by (rule relativePathOf_root)
  from assms(2) cli_relativePath_under[of f "FetchConfig.path config" "[]"]
  show c: "cli_relativePath (FetchConfig.path config) f = []"
    by (simp add: stripLeadingSlash_def)
  {
    assume a: "fetchContents provider config = Inr [f] \<and> type f = ''file'' \<and>
               downloadFile provider f config = Inr data"
    then have l: "fetchContents provider config = Inr [f]" and t: "type f = ''file''"
      and d: "downloadFile provider f config = Inr data" by blast+
    from single_file_tasks[OF l t d, of fuel latency] r
    obtain log where cf: "collectFiles (Suc fuel) latency provider config =
                     Some (Inr [\<lparr>relativePath = [], content = data\<rparr>], log)" by auto
    then show "\<exists>log. collectFiles (Suc fuel) latency provider config =
                     Some (Inr [\<lparr>relativePath = [], content = data\<rparr>], log)" by blast
    obtain z tr' where
      zd: "createAndDownloadZip [\<lparr>relativePath = [], content = data\<rparr>] (dirNameOf config @ ''.zip'')
             log = (z, tr')"
      by (cases "createAndDownloadZip [\<lparr>relativePath = [], content = data\<rparr>]
                   (dirNameOf config @ ''.zip'') log")
    from createAndDownloadZip_result[OF zd]
    have "zipEntries z = Map.empty" and "filename z = dirNameOf config @ ''.zip''"
      by (simp_all add: archive_of_nameless_file)
    moreover from cf zd have "downloadDirectory (Suc fuel) latency provider config = Some (Inr z, tr')"
      by (simp add: downloadDirectory_def)
    ultimately show "\<exists>z log. downloadDirectory (Suc fuel) latency provider config = Some (Inr z, log) \<and>
                     filename z = dirNameOf config @ ''.zip'' \<and> zipEntries z = Map.empty"
      by blast
  }
  {
    assume "CliRepoProvider.fetchContents cliProvider config = Inr [f] \<and> type f = ''file''"
    then show "cli_collectFiles (Suc fuel) cliProvider config (FetchConfig.path config) =
              Some (Inr [\<lparr>file_e = f, FileToDownload.relativePath = []\<rparr>])"
      using c by simp
  }
  {
    fix fuel' latency' provider' z log
    assume run: "downloadDirectory fuel' latency' provider' config = Some (Inr z, log)"
    from run_shape[OF run] obtain rs where "zipEntries z = archiveOf rs"
      by (auto split: option.splits)
    then show "zipEntries z (relativePathOf config f) = None"
      using r by (simp add: archiveOf_empty_name)
  }
qed

theorem root_file_has_empty_relative_path_witness:
  "FetchConfig.path blobConfig \<noteq> [] \<and>
   path (github_toEntry blobItem) = FetchConfig.path blobConfig \<and>
   fetchContents (github blobServer) blobConfig = Inr [github_toEntry blobItem] \<and>
   type (github_toEntry blobItem) = ''file'' \<and>
   downloadFile (github blobServer) (github_toEntry blobItem) blobConfig = Inr [1, 2, 3] \<and>
   relativePathOf blobConfig (github_toEntry blobItem) = [] \<and>
   (\<exists>log. collectFiles (Suc 0) (\<lambda>f. 0) (github blobServer) blobConfig =
            Some (Inr [\<lparr>relativePath = [], content = [1, 2, 3]\<rparr>], log)) \<and>
   (\<exists>z log. downloadDirectory (Suc 0) (\<lambda>f. 0) (github blobServer) blobConfig = Some (Inr z, log) \<and>
            filename z = ''index.ts.zip'' \<and> zipEntries z = Map.empty) \<and>
   CliRepoProvider.fetchContents (cli_github blobServer) blobConfig = Inr [cli_github_toEntry blobItem] \<and>
   cli_collectFiles (Suc 0) (cli_github blobServer) blobConfig (FetchConfig.path blobConfig) =
     Some (Inr [\<lparr>file_e = cli_github_toEntry blobItem, FileToDownload.relativePath = []\<rparr>])"
proof -
  have p: "FetchConfig.path blobConfig \<noteq> []" by (simp add: blobConfig_def)
  have e: "path (github_toEntry blobItem) = FetchConfig.path blobConfig"
    by (simp add: github_toEntry_def blobItem_def blobConfig_def)
  have l: "fetchContents (github blobServer) blobConfig = Inr [github_toEntry blobItem]"
    by (simp add: github_def blob_listing)
  have t: "type (github_toEntry blobItem) = ''file''"
    by (simp add: github_toEntry_def blobItem_def)
  have d: "dirNameOf blobConfig = ''index.ts''"
    by (simp add: dirNameOf_def blobConfig_def)
  note w = root_file_has_empty_relative_path[OF p e, where provider = "github blobServer"
      and data = "[1, 2, 3]" and fuel = 0 and latency = "\<lambda>f. 0"]
  from w have r: "relativePathOf blobConfig (github_toEntry blobItem) = []" by blast
  from w l t blob_download
  have cf: "\<exists>log. collectFiles (Suc 0) (\<lambda>f. 0) (github blobServer) blobConfig =
            Some (Inr [\<lparr>relativePath = [], content = [1, 2, 3]\<rparr>], log)"
    by blast
  from w l t blob_download
  have "\<exists>z log. downloadDirectory (Suc 0) (\<lambda>f. 0) (github blobServer) blobConfig = Some (Inr z, log) \<and>
            filename z = dirNameOf blobConfig @ ''.zip'' \<and> zipEntries z = Map.empty"
    by blast
  then have dd: "\<exists>z log. downloadDirectory (Suc 0) (\<lambda>f. 0) (github blobServer) blobConfig =
            Some (Inr z, log) \<and> filename z = ''index.ts.zip'' \<and> zipEntries z = Map.empty"
    by (simp add: d)
  have ce: "path (cli_github_toEntry blobItem) = FetchConfig.path blobConfig"
    by (simp add: cli_github_toEntry_def blobItem_def blobConfig_def)
  have cl: "CliRepoProvider.fetchContents (cli_github blobServer) blobConfig =
              Inr [cli_github_toEntry blobItem]"
    by (simp add: cli_github_def cli_github_fetchContents_def fetchContentsApi_def blobServer_def
        cliFetch_def ok_def Let_def blobItem_def)
  have ct: "type (cli_github_toEntry blobItem) = ''file''"
    by (simp add: cli_github_toEntry_def blobItem_def)
  from root_file_has_empty_relative_path[OF p ce, where cliProvider = "cli_github blobServer"
      and fuel = 0] cl ct
  have cc: "cli_collectFiles (Suc 0) (cli_github blobServer) blobConfig (FetchConfig.path blobConfig) =
     Some (Inr [\<lparr>file_e = cli_github_toEntry blobItem, FileToDownload.relativePath = []\<rparr>])"
    by blast
  show ?thesis
    by (rule conjI[OF p conjI[OF e conjI[OF l conjI[OF t conjI[OF blob_download conjI[OF r
          conjI[OF cf conjI[OF dd conjI[OF cl cc]]]]]]]]])
qed

end
